theory Spec2Isabelle
  imports Main "HOL-Library.Word"
begin

unbundle bit_operations_syntax

section \<open>Machine model\<close>

text \<open>
  The resumable frame of \<^verbatim>\<open>hphp/runtime/vm/resumable.h\<close> is a block of raw bytes that the
  code addresses with pointer arithmetic and reinterprets through a union. The model keeps
  that level: memory is a map from 64-bit addresses to bytes, pointers and \<^verbatim>\<open>size_t\<close>
  are 64-bit words (addition, subtraction and multiplication wrap), \<^verbatim>\<open>Offset\<close> and
  \<^verbatim>\<open>int32_t\<close> are 32-bit words read as two's complement, and multi-byte fields are
  little-endian, as on the x86-64 targets of the runtime.
\<close>

type_synonym addr = "64 word"
type_synonym size_t = "64 word"
type_synonym Offset = "32 word"
type_synonym byte = "8 word"
type_synonym memory = "addr \<Rightarrow> byte"

definition load_u32 :: "memory \<Rightarrow> addr \<Rightarrow> 32 word" where
  "load_u32 m a =
     ucast (m a) OR push_bit 8 (ucast (m (a + 1))) OR
     push_bit 16 (ucast (m (a + 2))) OR push_bit 24 (ucast (m (a + 3)))"

definition store_u32 :: "memory \<Rightarrow> addr \<Rightarrow> 32 word \<Rightarrow> memory" where
  "store_u32 m a w =
     m(a := ucast w, a + 1 := ucast (drop_bit 8 w),
       a + 2 := ucast (drop_bit 16 w), a + 3 := ucast (drop_bit 24 w))"

definition load_u64 :: "memory \<Rightarrow> addr \<Rightarrow> 64 word" where
  "load_u64 m a = ucast (load_u32 m a) OR push_bit 32 (ucast (load_u32 m (a + 4)))"

definition store_u64 :: "memory \<Rightarrow> addr \<Rightarrow> 64 word \<Rightarrow> memory" where
  "store_u64 m a w =
     store_u32 (store_u32 m a (ucast w)) (a + 4) (ucast (drop_bit 32 w))"

text \<open>
  Modelled from the spec: \<^verbatim>\<open>wordcpy\<close> (hphp/util, not under src/) "copies ... verbatim":
  the \<open>n\<close> bytes at \<open>dst\<close> become the \<open>n\<close> bytes that were at \<open>src\<close>; every other
  byte keeps its value.
\<close>

definition wordcpy :: "memory \<Rightarrow> addr \<Rightarrow> addr \<Rightarrow> size_t \<Rightarrow> memory" where
  "wordcpy m dst src n = (\<lambda>x. if x - dst < n then m (src + (x - dst)) else m x)"

text \<open>
  Two byte ranges \<open>[a, a + n)\<close> and \<open>[b, b + k)\<close> that share no address, in the
  cyclic arithmetic of addresses.
\<close>

definition disjoint :: "addr \<Rightarrow> size_t \<Rightarrow> addr \<Rightarrow> size_t \<Rightarrow> bool" where
  "disjoint a n b k \<longleftrightarrow> n \<le> b - a \<and> k \<le> a - b"


section \<open>Layout constants\<close>

text \<open>
  \<^verbatim>\<open>ResumableNode\<close>, \<^verbatim>\<open>TypedValue\<close> and \<^verbatim>\<open>ActRec\<close> are declared in headers that
  are not under src/; what \<^verbatim>\<open>sizeof\<close> and \<^verbatim>\<open>offsetof\<close> give for them is a parameter
  of the model. \<open>offsetof_flags\<close> and \<open>resumed_bit\<close> locate the flag that
  \<^verbatim>\<open>ActRec::resumed()\<close> tests and \<^verbatim>\<open>ActRec::setResumed()\<close> sets.
\<close>

record layout =
  sizeof_ResumableNode :: nat
  offsetof_framesize :: nat
  offsetof_hdr_kind :: nat
  kind_ResumableFrame :: byte
  sizeof_TypedValue :: nat
  sizeof_ActRec :: nat
  alignof_ActRec :: nat
  offsetof_m_func :: nat
  offsetof_flags :: nat
  resumed_bit :: "32 word"

text \<open>
  The constraints a C++ compiler guarantees for those declarations: fields lie inside
  their struct and do not overlap, \<^verbatim>\<open>m_func\<close> comes after the two linkage fields and
  before the flags word, the flag is a non-zero mask, and the sizes are small.
\<close>

definition layout_ok :: "layout \<Rightarrow> bool" where
  "layout_ok L \<longleftrightarrow>
     offsetof_framesize L + 8 \<le> sizeof_ResumableNode L \<and>
     offsetof_hdr_kind L < sizeof_ResumableNode L \<and>
     (offsetof_hdr_kind L < offsetof_framesize L \<or>
      offsetof_framesize L + 8 \<le> offsetof_hdr_kind L) \<and>
     offsetof_m_func L + 8 \<le> offsetof_flags L \<and>
     offsetof_flags L + 4 \<le> sizeof_ActRec L \<and>
     resumed_bit L \<noteq> 0 \<and>
     sizeof_ResumableNode L < 2 ^ 16 \<and> sizeof_TypedValue L < 2 ^ 16 \<and>
     sizeof_ActRec L < 2 ^ 16 \<and> alignof_ActRec L \<le> 16"

text \<open>
  \<^verbatim>\<open>struct Resumable { ActRec m_actRec; jit::TCA m_resumeAddr;
  union { struct { Offset m_resumeOffset; int32_t m_size; }; uint64_t m_offsetAndSize; }; }
  __attribute__((__aligned__(16)))\<close>: each member is placed at the next offset that
  satisfies its alignment, and the size is rounded up to the alignment of the struct.
\<close>

definition align_up :: "nat \<Rightarrow> nat \<Rightarrow> nat" where
  "align_up a n = ((n + a - 1) div a) * a"

fun field_offsets :: "nat \<Rightarrow> (nat \<times> nat) list \<Rightarrow> nat list" where
  "field_offsets off [] = []"
| "field_offsets off ((sz, al) # fs) =
     (let p = align_up al off in p # field_offsets (p + sz) fs)"

definition Resumable_fields :: "layout \<Rightarrow> (nat \<times> nat) list" where
  "Resumable_fields L = [(sizeof_ActRec L, alignof_ActRec L), (8, 8), (8, 8)]"

definition arOff :: "layout \<Rightarrow> nat" where
  "arOff L = field_offsets 0 (Resumable_fields L) ! 0"

definition resumeAddrOff :: "layout \<Rightarrow> nat" where
  "resumeAddrOff L = field_offsets 0 (Resumable_fields L) ! 1"

definition resumeOffsetOff :: "layout \<Rightarrow> nat" where
  "resumeOffsetOff L = field_offsets 0 (Resumable_fields L) ! 2"

text \<open>\<^verbatim>\<open>m_size\<close> follows the four bytes of \<^verbatim>\<open>m_resumeOffset\<close> in the anonymous struct.\<close>

definition sizeOff :: "layout \<Rightarrow> nat" where
  "sizeOff L = resumeOffsetOff L + 4"

text \<open>\<^verbatim>\<open>dataOff()\<close> is \<^verbatim>\<open>sizeof(Resumable)\<close>.\<close>

definition dataOff :: "layout \<Rightarrow> nat" where
  "dataOff L = align_up (max 16 (alignof_ActRec L)) (resumeOffsetOff L + 8)"

text \<open>
  The part of \<^verbatim>\<open>Resumable\<close> after its \<^verbatim>\<open>ActRec\<close> ("Rest of Resumable" in the
  diagram of the source): the resume address, the packed word and the padding.
\<close>

definition sizeof_Header :: "layout \<Rightarrow> nat" where
  "sizeof_Header L = dataOff L - sizeof_ActRec L"


section \<open>Collaborators\<close>

text \<open>
  Modelled from the spec: \<^verbatim>\<open>Func\<close> (hphp/runtime/vm/func.h) is not under src/; the
  header reads from it the "bytecode bounds" of the function, its "is resumable" flag and
  whether its attributes include \<^verbatim>\<open>AttrMayUseVV\<close>.
\<close>

record Func =
  base :: Offset
  past :: Offset
  isResumable :: bool
  attrMayUseVV :: bool

text \<open>
  Modelled from the spec: \<^verbatim>\<open>Func::contains\<close>, missing with \<^verbatim>\<open>Func\<close>, holds for an
  offset "within the owning function's bytecode bounds", from \<open>base\<close> up to but
  excluding \<open>past\<close>, compared as the signed 32-bit numbers they are.
\<close>

definition contains :: "Func \<Rightarrow> Offset \<Rightarrow> bool" where
  "contains f off \<longleftrightarrow> base f \<le>s off \<and> off <s past f"

text \<open>
  What the code does to its collaborators is recorded as a trace: the requests to the
  memory manager, the hand-off to the variable environment and the teardown of the
  trailing payload.
\<close>

datatype event =
    ObjMalloc size_t addr
  | ObjFree addr size_t
  | VarEnvSuspend addr addr
  | Destruct addr

record machine =
  mem :: memory
  trace :: "event list"

text \<open>
  The environment of a run: the layout constants, the \<^verbatim>\<open>Func\<close> objects by address,
  \<^verbatim>\<open>ActRec::hasVarEnv()\<close> of a caller frame (\<^verbatim>\<open>Create\<close> receives the frame as
  \<^verbatim>\<open>const ActRec*\<close> and only reads it), and the pointer the memory manager answers a
  request with (\<open>None\<close> when it is out of memory, which is fatal).
\<close>

record env =
  lay :: layout
  funcs :: "addr \<Rightarrow> Func"
  hasVarEnv :: "addr \<Rightarrow> bool"
  objMalloc_ptr :: "event list \<Rightarrow> size_t \<Rightarrow> addr option"

text \<open>
  How a run of the code can end without a result: one fault for each \<^verbatim>\<open>assert\<close> of
  the header, and the failure of the memory manager. \<^verbatim>\<open>assert\<close> is the macro of the
  C library: it checks in a build without \<^verbatim>\<open>NDEBUG\<close> and expands to nothing in a
  build with it. \<open>Create\<close>, \<open>resumeOffset\<close> and \<open>setResumeAddr\<close> below are the
  code of a build without \<^verbatim>\<open>NDEBUG\<close>; \<open>resumeOffset_build\<close> and
  \<open>setResumeAddr_build\<close> take the build as a parameter.
\<close>

datatype fault =
    Assert_fp
  | Assert_resumed_eq_clone
  | Assert_func
  | Assert_isResumable
  | Assert_contains
  | Assert_mayUseVV
  | OutOfMemory

text \<open>
  Modelled from the spec: \<^verbatim>\<open>MM().objMalloc\<close> is missing, the memory manager is not
  under src/; it is the "alloc(size) -> raw storage" of the spec, and running out of memory
  "is treated as fatal". A request is recorded in the trace and changes no byte of memory.
\<close>

definition objMalloc :: "env \<Rightarrow> size_t \<Rightarrow> machine \<Rightarrow> (addr \<times> machine) option" where
  "objMalloc E sz s =
     (case objMalloc_ptr E (trace s) sz of
        None \<Rightarrow> None
      | Some p \<Rightarrow> Some (p, s\<lparr>trace := trace s @ [ObjMalloc sz p]\<rparr>))"

text \<open>
  Modelled from the spec: \<^verbatim>\<open>MM().objFree\<close>, missing with the memory manager, is the
  "free(ptr, size)" of the spec.
\<close>

definition objFree :: "addr \<Rightarrow> size_t \<Rightarrow> machine \<Rightarrow> machine" where
  "objFree p sz s = s\<lparr>trace := trace s @ [ObjFree p sz]\<rparr>"


section \<open>ActRec\<close>

text \<open>
  \<^verbatim>\<open>ActRec\<close> (hphp/runtime/vm/bytecode.h) is not under src/. According to the spec the
  activation record holds the "function identity, saved caller linkage, flags including a
  suspended bit"; its three methods that the header calls are modelled on the bytes of the
  record.
\<close>

text \<open>
  Modelled from the spec: \<^verbatim>\<open>ActRec::func()\<close>, missing with \<^verbatim>\<open>ActRec\<close>, gives the
  "function identity": the pointer stored in \<^verbatim>\<open>m_func\<close>.
\<close>

definition ActRec_func :: "layout \<Rightarrow> memory \<Rightarrow> addr \<Rightarrow> addr" where
  "ActRec_func L m ar = load_u64 m (ar + of_nat (offsetof_m_func L))"

text \<open>
  Modelled from the spec: \<^verbatim>\<open>ActRec::resumed()\<close>, missing with \<^verbatim>\<open>ActRec\<close>, tests
  the "suspended bit" of the flags word.
\<close>

definition ActRec_resumed :: "layout \<Rightarrow> memory \<Rightarrow> addr \<Rightarrow> bool" where
  "ActRec_resumed L m ar \<longleftrightarrow>
     load_u32 m (ar + of_nat (offsetof_flags L)) AND resumed_bit L \<noteq> 0"

text \<open>
  Modelled from the spec: \<^verbatim>\<open>ActRec::setResumed()\<close>, missing with \<^verbatim>\<open>ActRec\<close>,
  "sets the suspended flag" and leaves the other bits of the flags word as they are.
\<close>

definition ActRec_setResumed :: "layout \<Rightarrow> memory \<Rightarrow> addr \<Rightarrow> memory" where
  "ActRec_setResumed L m ar =
     store_u32 m (ar + of_nat (offsetof_flags L))
       (load_u32 m (ar + of_nat (offsetof_flags L)) OR resumed_bit L)"


section \<open>Resumable\<close>

definition actRec :: "layout \<Rightarrow> addr \<Rightarrow> addr" where
  "actRec L r = r + of_nat (arOff L)"

definition m_resumeAddr :: "layout \<Rightarrow> memory \<Rightarrow> addr \<Rightarrow> addr" where
  "m_resumeAddr L m r = load_u64 m (r + of_nat (resumeAddrOff L))"

definition m_resumeOffset :: "layout \<Rightarrow> memory \<Rightarrow> addr \<Rightarrow> Offset" where
  "m_resumeOffset L m r = load_u32 m (r + of_nat (resumeOffsetOff L))"

definition m_size :: "layout \<Rightarrow> memory \<Rightarrow> addr \<Rightarrow> 32 word" where
  "m_size L m r = load_u32 m (r + of_nat (sizeOff L))"

definition m_offsetAndSize :: "layout \<Rightarrow> memory \<Rightarrow> addr \<Rightarrow> 64 word" where
  "m_offsetAndSize L m r = load_u64 m (r + of_nat (resumeOffsetOff L))"

text \<open>
  \<^verbatim>\<open>Create<clone, objSize, mayUseVV>(fp, numSlots, resumeAddr, resumeOffset)\<close>.
  Every \<^verbatim>\<open>assert\<close> is a branch that ends the run with a fault. In
  \<^verbatim>\<open>totalSize << 32 | resumeOffset\<close> the 32-bit signed offset is converted to
  \<^verbatim>\<open>size_t\<close>, which extends its sign.
\<close>

definition Create ::
  "env \<Rightarrow> bool \<Rightarrow> size_t \<Rightarrow> bool \<Rightarrow> addr \<Rightarrow> size_t \<Rightarrow> addr \<Rightarrow> Offset \<Rightarrow> machine
     \<Rightarrow> fault + (addr \<times> machine)" where
  "Create E clone objSize mayUseVV fp numSlots resumeAddr resumeOffset s =
    (let L = lay E in
     if fp = 0 then Inl Assert_fp
     else if ActRec_resumed L (mem s) fp \<noteq> clone then Inl Assert_resumed_eq_clone
     else
       let func = ActRec_func L (mem s) fp in
       if func = 0 then Inl Assert_func
       else if \<not> isResumable (funcs E func) then Inl Assert_isResumable
       else if \<not> contains (funcs E func) resumeOffset then Inl Assert_contains
       else
         let frameSize = numSlots * of_nat (sizeof_TypedValue L);
             totalSize = of_nat (sizeof_ResumableNode L) + frameSize +
                         of_nat (dataOff L) + objSize
         in case objMalloc E totalSize s of
              None \<Rightarrow> Inl OutOfMemory
            | Some (node, s1) \<Rightarrow>
                let frame = node + of_nat (sizeof_ResumableNode L);
                    resumable = frame + frameSize;
                    aRec = actRec L resumable;
                    m1 = store_u64 (mem s1) (node + of_nat (offsetof_framesize L)) frameSize;
                    m2 = m1(node + of_nat (offsetof_hdr_kind L) := kind_ResumableFrame L);
                    populate = (\<lambda>m tr.
                      let m' = store_u64 m (resumable + of_nat (resumeAddrOff L)) resumeAddr;
                          m'' = store_u64 m' (resumable + of_nat (resumeOffsetOff L))
                                  (push_bit 32 totalSize OR scast resumeOffset)
                      in Inr (resumable + of_nat (dataOff L), \<lparr>mem = m'', trace = tr\<rparr>))
                in if \<not> clone then
                     let src = fp - frameSize;
                         m3 = wordcpy m2 frame src (frameSize + of_nat (sizeof_ActRec L));
                         m4 = ActRec_setResumed L m3 aRec
                     in if \<not> (mayUseVV \<or> \<not> attrMayUseVV (funcs E func))
                        then Inl Assert_mayUseVV
                        else if mayUseVV \<and> attrMayUseVV (funcs E func) \<and> hasVarEnv E fp
                        then populate m4 (trace s1 @ [VarEnvSuspend fp aRec])
                        else populate m4 (trace s1)
                   else
                     let off = of_nat (offsetof_m_func L);
                         m3 = wordcpy m2 (aRec + off) (fp + off)
                                (of_nat (sizeof_ActRec L) - off)
                     in populate m3 (trace s1))"

text \<open>
  \<^verbatim>\<open>Destroy<T>(size, obj)\<close>, with \<^verbatim>\<open>sizeof(T)\<close> as \<open>sizeofT\<close>: the base of the
  block is \<^verbatim>\<open>reinterpret_cast<char*>(obj + 1) - size\<close>.
\<close>

definition Destroy :: "size_t \<Rightarrow> size_t \<Rightarrow> addr \<Rightarrow> machine \<Rightarrow> machine" where
  "Destroy sizeofT sz obj s =
     (let base = obj + sizeofT - sz;
          s1 = s\<lparr>trace := trace s @ [Destruct obj]\<rparr>
      in objFree base sz s1)"

definition resumeAddr :: "layout \<Rightarrow> memory \<Rightarrow> addr \<Rightarrow> addr" where
  "resumeAddr L m r = m_resumeAddr L m r"

definition resumeOffset :: "env \<Rightarrow> memory \<Rightarrow> addr \<Rightarrow> fault + Offset" where
  "resumeOffset E m r =
     (if \<not> contains (funcs E (ActRec_func (lay E) m (actRec (lay E) r)))
              (m_resumeOffset (lay E) m r)
      then Inl Assert_contains
      else Inr (m_resumeOffset (lay E) m r))"

text \<open>\<^verbatim>\<open>size()\<close> returns the \<^verbatim>\<open>int32_t m_size\<close> as a \<^verbatim>\<open>size_t\<close>: the sign is extended.\<close>

definition size_R :: "layout \<Rightarrow> memory \<Rightarrow> addr \<Rightarrow> size_t" where
  "size_R L m r = scast (m_size L m r)"

definition setResumeAddr :: "env \<Rightarrow> addr \<Rightarrow> addr \<Rightarrow> Offset \<Rightarrow> machine \<Rightarrow> fault + machine" where
  "setResumeAddr E r ra ro s =
     (let L = lay E in
      if \<not> contains (funcs E (ActRec_func L (mem s) (actRec L r))) ro
      then Inl Assert_contains
      else
        let m1 = store_u64 (mem s) (r + of_nat (resumeAddrOff L)) ra;
            m2 = store_u32 m1 (r + of_nat (resumeOffsetOff L)) ro
        in Inr (s\<lparr>mem := m2\<rparr>))"

text \<open>
  \<^verbatim>\<open>resumeOffset()\<close> and \<^verbatim>\<open>setResumeAddr\<close> in either build: \<open>ndebug\<close> says
  whether \<^verbatim>\<open>NDEBUG\<close> is defined, and the \<^verbatim>\<open>assert\<close> is a branch only when it is
  not.
\<close>

definition resumeOffset_build :: "bool \<Rightarrow> env \<Rightarrow> memory \<Rightarrow> addr \<Rightarrow> fault + Offset" where
  "resumeOffset_build ndebug E m r =
     (if \<not> ndebug \<and>
         \<not> contains (funcs E (ActRec_func (lay E) m (actRec (lay E) r)))
              (m_resumeOffset (lay E) m r)
      then Inl Assert_contains
      else Inr (m_resumeOffset (lay E) m r))"

definition setResumeAddr_build ::
  "bool \<Rightarrow> env \<Rightarrow> addr \<Rightarrow> addr \<Rightarrow> Offset \<Rightarrow> machine \<Rightarrow> fault + machine" where
  "setResumeAddr_build ndebug E r ra ro s =
     (let L = lay E in
      if \<not> ndebug \<and> \<not> contains (funcs E (ActRec_func L (mem s) (actRec L r))) ro
      then Inl Assert_contains
      else
        let m1 = store_u64 (mem s) (r + of_nat (resumeAddrOff L)) ra;
            m2 = store_u32 m1 (r + of_nat (resumeOffsetOff L)) ro
        in Inr (s\<lparr>mem := m2\<rparr>))"

text \<open>
  Modelled from the spec: \<^verbatim>\<open>Resumable::FromObj\<close> is declared in the header and defined
  elsewhere; the handle \<^verbatim>\<open>Create\<close> returns is "one past the header", so the header of
  a handle lies \<^verbatim>\<open>sizeof(Resumable)\<close> bytes below it.
\<close>

definition FromObj :: "layout \<Rightarrow> addr \<Rightarrow> addr" where
  "FromObj L obj = obj - of_nat (dataOff L)"

text \<open>
  Modelled from the spec: the callers of \<^verbatim>\<open>Destroy\<close> are not under src/; \<open>destroy\<close>
  takes the trailing-payload handle and passes "the size stored in the header at creation
  time (not recomputed)".
\<close>

definition destroy :: "layout \<Rightarrow> size_t \<Rightarrow> addr \<Rightarrow> machine \<Rightarrow> machine" where
  "destroy L sizeofT obj s = Destroy sizeofT (size_R L (mem s) (FromObj L obj)) obj s"

text \<open>What a run added to the trace, and the projections of the trace the claims speak of.\<close>

definition events_since :: "machine \<Rightarrow> machine \<Rightarrow> event list" where
  "events_since s s' = drop (length (trace s)) (trace s')"

fun requested :: "event list \<Rightarrow> size_t list" where
  "requested [] = []"
| "requested (ObjMalloc sz p # es) = sz # requested es"
| "requested (e # es) = requested es"

fun is_VarEnvSuspend :: "event \<Rightarrow> bool" where
  "is_VarEnvSuspend (VarEnvSuspend a b) = True"
| "is_VarEnvSuspend e = False"


section \<open>The steps of Create, named\<close>

text \<open>
  The values and intermediate memories that \<^verbatim>\<open>Create\<close> computes, as separate
  constants, so that statements about a run can name them. \<open>Create_Inr_iff\<close> below
  proves that they are what the definition of \<open>Create\<close> computes.
\<close>

definition frameSize_of :: "layout \<Rightarrow> size_t \<Rightarrow> size_t" where
  "frameSize_of L numSlots = numSlots * of_nat (sizeof_TypedValue L)"

definition totalSize_of :: "layout \<Rightarrow> size_t \<Rightarrow> size_t \<Rightarrow> size_t" where
  "totalSize_of L numSlots objSize =
     of_nat (sizeof_ResumableNode L) + frameSize_of L numSlots + of_nat (dataOff L) + objSize"

definition Create_pre :: "env \<Rightarrow> bool \<Rightarrow> bool \<Rightarrow> addr \<Rightarrow> Offset \<Rightarrow> machine \<Rightarrow> bool" where
  "Create_pre E clone mayUseVV fp ro s \<longleftrightarrow>
     fp \<noteq> 0 \<and> ActRec_resumed (lay E) (mem s) fp = clone \<and>
     ActRec_func (lay E) (mem s) fp \<noteq> 0 \<and>
     isResumable (funcs E (ActRec_func (lay E) (mem s) fp)) \<and>
     contains (funcs E (ActRec_func (lay E) (mem s) fp)) ro \<and>
     (clone \<or> mayUseVV \<or> \<not> attrMayUseVV (funcs E (ActRec_func (lay E) (mem s) fp)))"

definition resumable_of :: "layout \<Rightarrow> addr \<Rightarrow> size_t \<Rightarrow> addr" where
  "resumable_of L node numSlots =
     node + of_nat (sizeof_ResumableNode L) + frameSize_of L numSlots"

definition node_mem :: "layout \<Rightarrow> memory \<Rightarrow> addr \<Rightarrow> size_t \<Rightarrow> memory" where
  "node_mem L m node numSlots =
     (store_u64 m (node + of_nat (offsetof_framesize L)) (frameSize_of L numSlots))
       (node + of_nat (offsetof_hdr_kind L) := kind_ResumableFrame L)"

definition copy_mem :: "layout \<Rightarrow> bool \<Rightarrow> memory \<Rightarrow> addr \<Rightarrow> addr \<Rightarrow> size_t \<Rightarrow> memory" where
  "copy_mem L clone m node fp numSlots =
     (if clone then
        wordcpy m (actRec L (resumable_of L node numSlots) + of_nat (offsetof_m_func L))
          (fp + of_nat (offsetof_m_func L))
          (of_nat (sizeof_ActRec L) - of_nat (offsetof_m_func L))
      else
        ActRec_setResumed L
          (wordcpy m (node + of_nat (sizeof_ResumableNode L)) (fp - frameSize_of L numSlots)
             (frameSize_of L numSlots + of_nat (sizeof_ActRec L)))
          (actRec L (resumable_of L node numSlots)))"

definition header_mem :: "layout \<Rightarrow> memory \<Rightarrow> addr \<Rightarrow> addr \<Rightarrow> size_t \<Rightarrow> Offset \<Rightarrow> memory" where
  "header_mem L m r ra tot ro =
     store_u64 (store_u64 m (r + of_nat (resumeAddrOff L)) ra)
       (r + of_nat (resumeOffsetOff L)) (push_bit 32 tot OR scast ro)"

definition Create_mem ::
  "layout \<Rightarrow> bool \<Rightarrow> size_t \<Rightarrow> memory \<Rightarrow> addr \<Rightarrow> addr \<Rightarrow> size_t \<Rightarrow> addr \<Rightarrow> Offset \<Rightarrow> memory" where
  "Create_mem L clone objSize m node fp numSlots ra ro =
     header_mem L (copy_mem L clone (node_mem L m node numSlots) node fp numSlots)
       (resumable_of L node numSlots) ra (totalSize_of L numSlots objSize) ro"

definition handoff :: "env \<Rightarrow> bool \<Rightarrow> bool \<Rightarrow> addr \<Rightarrow> addr \<Rightarrow> machine \<Rightarrow> event list" where
  "handoff E clone mayUseVV fp ar s =
     (if \<not> clone \<and> mayUseVV \<and> attrMayUseVV (funcs E (ActRec_func (lay E) (mem s) fp)) \<and>
         hasVarEnv E fp
      then [VarEnvSuspend fp ar] else [])"

text \<open>
  What the memory manager owes \<^verbatim>\<open>Create\<close>: the layout constants are those of a
  compiler, the five regions fit the address space, and the block it returns is fresh, that
  is, shares no byte with the frame \<^verbatim>\<open>Create\<close> copies from.
\<close>

definition fresh_block :: "env \<Rightarrow> bool \<Rightarrow> size_t \<Rightarrow> addr \<Rightarrow> size_t \<Rightarrow> machine \<Rightarrow> bool" where
  "fresh_block E clone objSize fp numSlots s \<longleftrightarrow>
     layout_ok (lay E) \<and>
     sizeof_ResumableNode (lay E) + unat numSlots * sizeof_TypedValue (lay E) +
       dataOff (lay E) + unat objSize < 2 ^ 64 \<and>
     (case objMalloc_ptr E (trace s) (totalSize_of (lay E) numSlots objSize) of
        None \<Rightarrow> True
      | Some node \<Rightarrow>
          if clone then
            disjoint node (totalSize_of (lay E) numSlots objSize)
              fp (of_nat (sizeof_ActRec (lay E)))
          else
            disjoint node (totalSize_of (lay E) numSlots objSize)
              (fp - frameSize_of (lay E) numSlots)
              (frameSize_of (lay E) numSlots + of_nat (sizeof_ActRec (lay E))))"

text \<open>
  Modelled from the spec: a resume offset is an "offset in bytes from the start of the
  owning unit's instruction stream", so the bounds of a function are not negative.
\<close>

definition Func_ok :: "Func \<Rightarrow> bool" where
  "Func_ok f \<longleftrightarrow> 0 \<le>s base f \<and> base f \<le>s past f"

text \<open>
  A slot count and a payload size are valid when the header can record the block they ask
  for: the five regions add up to less than \<open>2 ^ 31\<close> bytes, the range of the
  non-negative values of the 32-bit \<^verbatim>\<open>m_size\<close>.
\<close>

definition valid_sizes :: "layout \<Rightarrow> size_t \<Rightarrow> size_t \<Rightarrow> bool" where
  "valid_sizes L numSlots objSize \<longleftrightarrow>
     sizeof_ResumableNode L + unat numSlots * sizeof_TypedValue L + dataOff L + unat objSize
       < 2 ^ 31"


section \<open>A concrete run\<close>

text \<open>
  The constants of an x86-64 build, a function spanning bytecode 0 to 100, and a caller
  frame at \<open>0x7000\<close> whose \<^verbatim>\<open>m_func\<close> points at that function; the memory
  manager answers with a block at \<open>0x10000\<close>.
\<close>

definition x64 :: layout where
  "x64 = \<lparr>sizeof_ResumableNode = 16, offsetof_framesize = 0, offsetof_hdr_kind = 11,
          kind_ResumableFrame = 4, sizeof_TypedValue = 16, sizeof_ActRec = 48,
          alignof_ActRec = 8, offsetof_m_func = 16, offsetof_flags = 28,
          resumed_bit = 0x20000000\<rparr>"

definition f100 :: Func where
  "f100 = \<lparr>base = 0, past = 100, isResumable = True, attrMayUseVV = True\<rparr>"

definition E0 :: env where
  "E0 = \<lparr>lay = x64, funcs = (\<lambda>p. f100), hasVarEnv = (\<lambda>fp. True),
         objMalloc_ptr = (\<lambda>tr sz. Some 0x10000)\<rparr>"

definition live_frame :: machine where
  "live_frame = \<lparr>mem = store_u64 (\<lambda>a. 0) 0x7010 0x5000, trace = []\<rparr>"

definition suspended_frame :: machine where
  "suspended_frame =
     \<lparr>mem = store_u32 (store_u64 (\<lambda>a. 0) 0x7010 0x5000) 0x701C 0x20000000, trace = []\<rparr>"

text \<open>
  The machines those two runs end in: a fresh suspend of the live frame, and a clone of
  the suspended one (3 local slots, a trailing payload of 40 bytes, resume offset 12).
\<close>

definition created :: machine where
  "created =
     \<lparr>mem = Create_mem x64 False 40 (mem live_frame) 0x10000 0x7000 3 0xCAFE 12,
      trace = [ObjMalloc 168 0x10000, VarEnvSuspend 0x7000 0x10040]\<rparr>"

definition cloned :: machine where
  "cloned =
     \<lparr>mem = Create_mem x64 True 40 (mem suspended_frame) 0x10000 0x7000 3 0xCAFE 12,
      trace = [ObjMalloc 168 0x10000]\<rparr>"


text \<open>
  A clone whose size the header cannot record, of \<open>2 ^ 27\<close> local slots; the fresh
  frame with a stored resume offset of 200, outside the function; and the fresh frame after
  a resume address and the offset 100, also outside the function, were stored in it.
\<close>

definition cloned_2GiB :: machine where
  "cloned_2GiB =
     \<lparr>mem = Create_mem x64 True 40 (mem suspended_frame) 0x10000 0x7000 0x8000000 0xCAFE 12,
      trace = [ObjMalloc 0x80000078 0x10000]\<rparr>"

definition stale :: machine where
  "stale = \<lparr>mem = store_u32 (mem created) 0x10078 200, trace = trace created\<rparr>"

definition stored_100 :: machine where
  "stored_100 =
     created\<lparr>mem := store_u32 (store_u64 (mem created) 0x10070 0xBEEF) 0x10078 100\<rparr>"


section \<open>Layout of Resumable\<close>

lemma align_up_ge: "0 < a \<Longrightarrow> n \<le> align_up a n"
proof -
  assume a: "0 < a"
  have "n + a - 1 = (n + a - 1) div a * a + (n + a - 1) mod a" by simp
  moreover have "(n + a - 1) mod a \<le> a - 1" using a by (simp add: Suc_leI less_Suc_eq_le[symmetric])
  ultimately have "n + a - 1 \<le> align_up a n + (a - 1)" unfolding align_up_def by linarith
  then show ?thesis using a by linarith
qed

lemma align_up_less: "0 < a \<Longrightarrow> align_up a n < n + a"
proof -
  assume a: "0 < a"
  have "(n + a - 1) div a * a \<le> n + a - 1" by simp
  then show ?thesis unfolding align_up_def using a by linarith
qed

lemma align_up_dvd: "a dvd align_up a n"
  by (simp add: align_up_def)

lemma align_up_id: "a dvd n \<Longrightarrow> 0 < a \<Longrightarrow> align_up a n = n"
proof -
  assume d: "a dvd n" and a: "0 < a"
  then obtain k where k: "n = a * k" by (auto simp: dvd_def)
  have "(a * k + a - 1) div a = k"
    using a by (metis Nat.add_diff_assoc Suc_leI add.commute div_mult_self1 div_less diff_less less_numeral_extra(1) mult.commute plus_1_eq_Suc add_0 less_irrefl_nat)
  then show ?thesis unfolding align_up_def k by (simp add: mult.commute)
qed

lemma align_up_zero: "align_up a 0 = 0"
  by (cases "a = 0") (simp_all add: align_up_def)

lemma arOff_zero: "arOff L = 0"
  by (simp add: arOff_def Resumable_fields_def Let_def align_up_zero)

lemma resumeAddrOff_eq: "resumeAddrOff L = align_up 8 (sizeof_ActRec L)"
  by (simp add: resumeAddrOff_def Resumable_fields_def Let_def align_up_zero)

lemma resumeOffsetOff_eq: "resumeOffsetOff L = resumeAddrOff L + 8"
proof -
  have "resumeOffsetOff L = align_up 8 (resumeAddrOff L + 8)"
    by (simp add: resumeOffsetOff_def resumeAddrOff_def Resumable_fields_def Let_def align_up_zero)
  moreover have "8 dvd resumeAddrOff L + 8"
    unfolding resumeAddrOff_eq using align_up_dvd[of 8 "sizeof_ActRec L"] by simp
  ultimately show ?thesis by (simp add: align_up_id)
qed

lemma resumeAddrOff_ge: "sizeof_ActRec L \<le> resumeAddrOff L"
  unfolding resumeAddrOff_eq by (rule align_up_ge) simp

lemma resumeAddrOff_less: "resumeAddrOff L < sizeof_ActRec L + 8"
  unfolding resumeAddrOff_eq by (rule align_up_less) simp

lemma dataOff_ge: "resumeOffsetOff L + 8 \<le> dataOff L"
  unfolding dataOff_def by (rule align_up_ge) simp

lemma dataOff_less: "alignof_ActRec L \<le> 16 \<Longrightarrow> dataOff L < resumeOffsetOff L + 24"
proof -
  assume "alignof_ActRec L \<le> 16"
  then have "max 16 (alignof_ActRec L) = 16" by simp
  then show ?thesis
    unfolding dataOff_def using align_up_less[of 16 "resumeOffsetOff L + 8"] by simp
qed

lemma dataOff_ge_ActRec: "sizeof_ActRec L + 16 \<le> dataOff L"
  using dataOff_ge[of L] resumeOffsetOff_eq[of L] resumeAddrOff_ge[of L] by linarith

lemma unat_sub64:
  fixes x y :: "64 word"
  shows "unat (x - y) = (if unat y \<le> unat x then unat x - unat y
                          else unat x + 2 ^ 64 - unat y)"
  by (simp add: unat_sub_if_size word_size)

lemma unat_add64:
  fixes x y :: "64 word"
  shows "unat (x + y) = (if unat x + unat y < 2 ^ 64 then unat x + unat y
                          else unat x + unat y - 2 ^ 64)"
  by (simp add: unat_plus_if_size word_size)

lemma unat_lt64: "unat (x :: 64 word) < 2 ^ 64"
  using unsigned_less[of x, where 'a=nat] by simp

lemma unat_neg64:
  fixes d :: "64 word"
  shows "unat (- d) = (if unat d = 0 then 0 else 2 ^ 64 - unat d)"
  using unat_sub64[of 0 d] by (simp split: if_splits)

lemma range_disj:
  fixes a b x n k :: "64 word"
  assumes "disjoint a n b k" "x - a < n"
  shows "k \<le> x - b"
proof -
  define u where "u = x - a"
  define d where "d = b - a"
  have 1: "x - b = u - d" by (simp add: u_def d_def)
  have 2: "a - b = - d" by (simp add: d_def)
  have h: "unat u < unat n" "unat n \<le> unat d" "unat k \<le> unat (- d)"
    using assms unfolding disjoint_def 2 u_def[symmetric] d_def[symmetric]
    by (simp_all add: word_le_nat_alt word_less_nat_alt)
  have "unat k \<le> unat (u - d)"
    using h unat_lt64[of u] unat_lt64[of d] unat_lt64[of k]
    by (simp add: unat_sub64 unat_neg64 split: if_splits)
  then show ?thesis by (simp add: 1 word_le_nat_alt)
qed

lemma disjoint_sym: "disjoint a n b k \<Longrightarrow> disjoint b k a n"
  by (simp add: disjoint_def)

lemma compose32:
  "(ucast (ucast (w::32 word) :: byte) OR push_bit 8 (ucast (ucast (drop_bit 8 w) :: byte)) OR
     push_bit 16 (ucast (ucast (drop_bit 16 w) :: byte)) OR
     push_bit 24 (ucast (ucast (drop_bit 24 w) :: byte))) = w"
proof (rule bit_word_eqI)
  fix n assume "n < LENGTH(32)"
  then show "bit (ucast (ucast w :: byte) OR push_bit 8 (ucast (ucast (drop_bit 8 w) :: byte)) OR
     push_bit 16 (ucast (ucast (drop_bit 16 w) :: byte)) OR
     push_bit 24 (ucast (ucast (drop_bit 24 w) :: byte)) :: 32 word) n = bit w n"
    by (cases "n < 8"; cases "n < 16"; cases "n < 24") (auto simp add: bit_simps)
qed

lemma compose64:
  "ucast (ucast (w::64 word) :: 32 word) OR push_bit 32 (ucast (ucast (drop_bit 32 w) :: 32 word)) = w"
proof (rule bit_word_eqI)
  fix n assume "n < LENGTH(64)"
  then show "bit (ucast (ucast w :: 32 word) OR
               push_bit 32 (ucast (ucast (drop_bit 32 w) :: 32 word)) :: 64 word) n = bit w n"
    by (cases "n < 32") (auto simp: bit_simps)
qed

lemma store_u32_out: "4 \<le> x - a \<Longrightarrow> store_u32 m a w x = m x"
  by (auto simp: store_u32_def word_le_nat_alt)

lemma store_u64_out: "8 \<le> x - a \<Longrightarrow> store_u64 m a w x = m x"
proof -
  assume h: "8 \<le> x - a"
  have 1: "4 \<le> x - a" using h by (simp add: word_le_nat_alt)
  have "unat (x - (a + 4)) = unat ((x - a) - 4)" by (simp add: algebra_simps)
  also have "\<dots> = unat (x - a) - 4" using h by (simp add: unat_sub64 word_le_nat_alt)
  finally have 2: "4 \<le> x - (a + 4)" using h by (simp add: word_le_nat_alt)
  show ?thesis unfolding store_u64_def by (simp add: store_u32_out 1 2)
qed

lemma load_u32_cong:
  assumes "\<And>k. k < 4 \<Longrightarrow> m (a + k) = m' (a + k)"
  shows "load_u32 m a = load_u32 m' a"
proof -
  have "m (a + 0) = m' (a + 0)" "m (a + 1) = m' (a + 1)" "m (a + 2) = m' (a + 2)"
       "m (a + 3) = m' (a + 3)"
    by (rule assms, simp add: word_less_nat_alt)+
  then show ?thesis by (simp add: load_u32_def)
qed

lemma load_u64_cong:
  assumes "\<And>k. k < 8 \<Longrightarrow> m (a + k) = m' (a + k)"
  shows "load_u64 m a = load_u64 m' a"
proof -
  have 1: "load_u32 m a = load_u32 m' a"
  proof (rule load_u32_cong)
    fix k :: "64 word" assume "k < 4"
    then have "k < 8" by (simp add: word_less_nat_alt)
    then show "m (a + k) = m' (a + k)" by (rule assms)
  qed
  have 2: "load_u32 m (a + 4) = load_u32 m' (a + 4)"
  proof (rule load_u32_cong)
    fix k :: "64 word" assume "k < 4"
    then have "4 + k < 8" by (simp add: word_less_nat_alt unat_add64)
    then have "m (a + (4 + k)) = m' (a + (4 + k))" by (rule assms)
    then show "m (a + 4 + k) = m' (a + 4 + k)" by (simp add: add.assoc)
  qed
  show ?thesis by (simp add: load_u64_def 1 2)
qed

lemma load_store_u32 [simp]: "load_u32 (store_u32 m a w) a = w"
  by (simp add: load_u32_def store_u32_def compose32)

lemma load_u32_store_u32_hi [simp]: "load_u32 (store_u32 m a w) (a + 4) = load_u32 m (a + 4)"
  by (rule load_u32_cong) (simp add: store_u32_out word_le_nat_alt word_less_nat_alt unat_add64)

lemma load_u32_store_u32_lo [simp]: "load_u32 (store_u32 m (a + 4) w) a = load_u32 m a"
  by (rule load_u32_cong) (simp add: store_u32_out word_le_nat_alt word_less_nat_alt unat_add64 unat_sub64)

lemma load_store_u64 [simp]: "load_u64 (store_u64 m a w) a = w"
  by (simp add: load_u64_def store_u64_def compose64)

lemma load_lo_store_u64 [simp]: "load_u32 (store_u64 m a w) a = ucast w"
  by (simp add: store_u64_def)

lemma load_hi_store_u64 [simp]: "load_u32 (store_u64 m a w) (a + 4) = ucast (drop_bit 32 w)"
  by (simp add: store_u64_def)

lemma unat_of_nat64: "n < 2 ^ 64 \<Longrightarrow> unat (of_nat n :: 64 word) = n"
  by (simp add: unat_of_nat)


section \<open>The packed word\<close>

lemma sint32_nonneg_iff: "0 \<le> sint (w :: 32 word) \<longleftrightarrow> \<not> bit w 31"
  by (simp add: sint_uint bit_uint_iff)

lemma bit_below:
  assumes "unat (t::64 word) < 2 ^ k" "bit t n" shows "n < k"
proof -
  have "take_bit k (unat t) = unat t" using assms(1) by (simp add: take_bit_nat_eq_self)
  moreover have "bit (unat t) n" using assms(2) by (simp add: bit_unsigned_iff)
  ultimately have "bit (take_bit k (unat t)) n" by simp
  then show ?thesis by (simp add: bit_take_bit_iff)
qed

lemma pack_lo: "(ucast (push_bit 32 (t::64 word) OR scast (off :: 32 word)) :: 32 word) = off"
  by (rule bit_word_eqI) (auto simp: bit_simps)

lemma pack_hi:
  "0 \<le> sint (off :: 32 word) \<Longrightarrow>
   (ucast (drop_bit 32 (push_bit 32 (t::64 word) OR scast off)) :: 32 word) = ucast t"
  by (rule bit_word_eqI) (auto simp: bit_simps sint32_nonneg_iff)

lemma pack_hi_neg:
  "sint (off :: 32 word) < 0 \<Longrightarrow>
   (ucast (drop_bit 32 (push_bit 32 (t::64 word) OR scast off)) :: 32 word) = - 1"
  by (rule bit_word_eqI) (auto simp: bit_simps sint32_nonneg_iff[symmetric] not_le)

lemma pack_nonneg:
  "0 \<le> sint (off :: 32 word) \<Longrightarrow> (scast off :: 64 word) = ucast off"
proof (rule bit_word_eqI)
  fix n assume "0 \<le> sint off" "n < LENGTH(64)"
  then have nb: "\<not> bit off 31" by (simp add: sint32_nonneg_iff)
  have "bit off n \<Longrightarrow> n < 31"
  proof -
    assume b: "bit off n"
    then have "n < 32" using bit_imp_le_length[OF b] by simp
    with nb b show "n < 31" by (cases "n = 31") auto
  qed
  then show "bit (scast off :: 64 word) n = bit (ucast off :: 64 word) n"
    using nb by (auto simp: bit_simps min_def)
qed

lemma sign_extend_small:
  assumes "unat (t::64 word) < 2 ^ 31"
  shows "(scast (ucast t :: 32 word) :: 64 word) = t"
proof (rule bit_word_eqI)
  fix n assume "n < LENGTH(64)"
  have b: "\<And>k. bit t k \<Longrightarrow> k < 31" using bit_below[OF assms] .
  show "bit (scast (ucast t :: 32 word) :: 64 word) n = bit t n"
    using b[of n] b[of 31] by (auto simp: bit_simps min_def)
qed

lemma unat_below:
  assumes "\<And>n. bit (t::64 word) n \<Longrightarrow> n < k"
  shows "unat t < 2 ^ k"
proof -
  have "take_bit k t = t"
    by (rule bit_word_eqI) (use assms in \<open>auto simp: bit_simps\<close>)
  then have "unat t = take_bit k (unat t)"
    by (metis unsigned_take_bit_eq)
  then show ?thesis
    by (metis take_bit_nat_less_exp)
qed

lemma unat_NOT64: "unat (NOT t :: 64 word) = 2 ^ 64 - 1 - unat t"
proof -
  have "NOT t = (- 1) - t" by (simp add: not_eq_complement)
  moreover have "unat (- 1 :: 64 word) = 2 ^ 64 - 1" by (simp add: unat_neg64)
  ultimately show ?thesis
    using unat_lt64[of t] by (simp add: unat_sub64)
qed

lemma sign_extend_NOT:
  "(scast (ucast (NOT t :: 64 word) :: 32 word) :: 64 word) = NOT (scast (ucast t :: 32 word))"
  by (rule bit_word_eqI) (auto simp: bit_simps min_def)

lemma sign_extend_eq_iff:
  "(scast (ucast t :: 32 word) :: 64 word) = t \<longleftrightarrow>
     unat (t::64 word) < 2 ^ 31 \<or> 2 ^ 64 - 2 ^ 31 \<le> unat t"
proof
  assume eq: "(scast (ucast t :: 32 word) :: 64 word) = t"
  have hi: "\<And>n. 31 \<le> n \<Longrightarrow> n < 64 \<Longrightarrow> bit t n = bit t 31"
  proof -
    fix n :: nat assume n: "31 \<le> n" "n < 64"
    have "bit (scast (ucast t :: 32 word) :: 64 word) n = bit t 31"
      using n by (auto simp: bit_simps min_def)
    then show "bit t n = bit t 31" by (simp add: eq)
  qed
  show "unat t < 2 ^ 31 \<or> 2 ^ 64 - 2 ^ 31 \<le> unat t"
  proof (cases "bit t 31")
    case False
    have "unat t < 2 ^ 31"
    proof (rule unat_below)
      fix n assume b: "bit t n"
      then have "n < 64" using bit_imp_le_length[OF b] by simp
      with hi[of n] b False show "n < 31" by (cases "31 \<le> n") auto
    qed
    then show ?thesis by simp
  next
    case True
    have "unat (NOT t) < 2 ^ 31"
    proof (rule unat_below)
      fix n assume b: "bit (NOT t) n"
      then have n: "n < 64" using bit_imp_le_length[OF b] by simp
      from b have "\<not> bit t n" by (simp add: bit_simps)
      with hi[of n] n True show "n < 31" by (cases "31 \<le> n") auto
    qed
    then show ?thesis using unat_lt64[of t] unfolding unat_NOT64 by linarith
  qed
next
  assume "unat t < 2 ^ 31 \<or> 2 ^ 64 - 2 ^ 31 \<le> unat t"
  then show "(scast (ucast t :: 32 word) :: 64 word) = t"
  proof
    assume "unat t < 2 ^ 31" then show ?thesis by (rule sign_extend_small)
  next
    assume "2 ^ 64 - 2 ^ 31 \<le> unat t"
    then have "unat (NOT t) < 2 ^ 31" using unat_lt64[of t] unfolding unat_NOT64 by linarith
    then have "(scast (ucast (NOT t) :: 32 word) :: 64 word) = NOT t" by (rule sign_extend_small)
    then have "NOT (scast (ucast t :: 32 word) :: 64 word) = NOT t" by (simp add: sign_extend_NOT)
    then show ?thesis by simp
  qed
qed


section \<open>Writes and the bytes they leave alone\<close>

lemma addr_add: "(p :: 64 word) + of_nat i + of_nat j = p + of_nat (i + j)"
  by simp

lemma sub_off:
  fixes x p :: "64 word"
  assumes "k < 2 ^ 64"
  shows "unat (x - (p + of_nat k)) =
           (if k \<le> unat (x - p) then unat (x - p) - k else unat (x - p) + 2 ^ 64 - k)"
proof -
  have "x - (p + of_nat k) = (x - p) - of_nat k" by simp
  then show ?thesis using assms by (simp only: unat_sub64 unat_of_nat64)
qed

lemma at_off: "i < 2 ^ 64 \<Longrightarrow> unat ((p + of_nat i) - p :: 64 word) = i"
  by (simp add: unat_of_nat64)

lemma store_u64_off:
  assumes "k + 8 \<le> 2 ^ 64" "unat (x - p) < k \<or> k + 8 \<le> unat (x - p)"
  shows "store_u64 m (p + of_nat k) w x = m x"
proof (rule store_u64_out)
  have "k < 2 ^ 64" using assms(1) by simp
  then have "8 \<le> unat (x - (p + of_nat k))"
    using assms unat_lt64[of "x - p"] by (auto simp: sub_off)
  then show "8 \<le> x - (p + of_nat k)" by (simp add: word_le_nat_alt)
qed

lemma store_u32_off:
  assumes "k + 4 \<le> 2 ^ 64" "unat (x - p) < k \<or> k + 4 \<le> unat (x - p)"
  shows "store_u32 m (p + of_nat k) w x = m x"
proof (rule store_u32_out)
  have "k < 2 ^ 64" using assms(1) by simp
  then have "4 \<le> unat (x - (p + of_nat k))"
    using assms unat_lt64[of "x - p"] by (auto simp: sub_off)
  then show "4 \<le> x - (p + of_nat k)" by (simp add: word_le_nat_alt)
qed

lemma upd_off:
  fixes x p :: "64 word"
  assumes "k < 2 ^ 64" "unat (x - p) \<noteq> k"
  shows "(m(p + of_nat k := v)) x = m x"
proof -
  have "x \<noteq> p + of_nat k"
  proof
    assume "x = p + of_nat k"
    then have "unat (x - p) = k" using assms(1) by (simp add: unat_of_nat64)
    with assms(2) show False by simp
  qed
  then show ?thesis by simp
qed

lemma wordcpy_out: "n \<le> x - dst \<Longrightarrow> wordcpy m dst src n x = m x"
  by (auto simp: wordcpy_def)

lemma wordcpy_off:
  assumes "k + unat n \<le> 2 ^ 64" "unat (x - p) < k \<or> k + unat n \<le> unat (x - p)"
  shows "wordcpy m (p + of_nat k) src n x = m x"
proof (cases "k < 2 ^ 64")
  case True
  have "unat n \<le> unat (x - (p + of_nat k))"
    using assms unat_lt64[of "x - p"] True by (auto simp: sub_off)
  then show ?thesis by (simp add: wordcpy_out word_le_nat_alt)
next
  case False
  then have "unat n = 0" using assms(1) by simp
  then have "n = 0" by (simp add: unat_eq_0)
  then show ?thesis by (simp add: wordcpy_def)
qed

lemma wordcpy_in:
  assumes "i < unat n"
  shows "wordcpy m dst src n (dst + of_nat i) = m (src + of_nat i)"
proof -
  have "i < 2 ^ 64" using assms unat_lt64[of n] by simp
  then have "unat (of_nat i :: 64 word) < unat n" using assms by (simp add: unat_of_nat64)
  then have "(of_nat i :: 64 word) < n" by (simp add: word_less_nat_alt)
  then show ?thesis by (simp add: wordcpy_def)
qed

lemma load_u32_eqI:
  assumes "\<And>k. k < 4 \<Longrightarrow> m (a + of_nat k) = m' (b + of_nat k)"
  shows "load_u32 m a = load_u32 m' b"
proof -
  have "m (a + of_nat 0) = m' (b + of_nat 0)" "m (a + of_nat 1) = m' (b + of_nat 1)"
       "m (a + of_nat 2) = m' (b + of_nat 2)" "m (a + of_nat 3) = m' (b + of_nat 3)"
    by (rule assms, simp)+
  then show ?thesis by (simp add: load_u32_def)
qed

lemma load_u64_eqI:
  assumes "\<And>k. k < 8 \<Longrightarrow> m (a + of_nat k) = m' (b + of_nat k)"
  shows "load_u64 m a = load_u64 m' b"
proof -
  have 1: "load_u32 m a = load_u32 m' b"
    by (rule load_u32_eqI) (simp add: assms)
  have 2: "load_u32 m (a + 4) = load_u32 m' (b + 4)"
  proof (rule load_u32_eqI)
    fix k :: nat assume "k < 4"
    then have "m (a + of_nat (4 + k)) = m' (b + of_nat (4 + k))" by (intro assms) simp
    then show "m (a + 4 + of_nat k) = m' (b + 4 + of_nat k)" by (simp add: add.assoc)
  qed
  show ?thesis by (simp add: load_u64_def 1 2)
qed

lemma layout_facts:
  assumes "layout_ok L"
  shows "offsetof_framesize L + 8 \<le> sizeof_ResumableNode L"
    "offsetof_hdr_kind L < sizeof_ResumableNode L"
    "offsetof_m_func L + 8 \<le> offsetof_flags L"
    "offsetof_flags L + 4 \<le> sizeof_ActRec L"
    "sizeof_ActRec L \<le> resumeAddrOff L"
    "resumeOffsetOff L = resumeAddrOff L + 8"
    "resumeOffsetOff L + 8 \<le> dataOff L"
    "sizeof_ResumableNode L < 65536" "sizeof_TypedValue L < 65536"
    "sizeof_ActRec L < 65536" "dataOff L < 131072"
proof -
  have ok: "alignof_ActRec L \<le> 16" "sizeof_ActRec L < 65536"
    using assms by (simp_all add: layout_ok_def)
  show "dataOff L < 131072"
    using dataOff_less[OF ok(1)] resumeOffsetOff_eq[of L] resumeAddrOff_less[of L] ok(2)
    by linarith
  show "sizeof_ActRec L \<le> resumeAddrOff L" by (rule resumeAddrOff_ge)
  show "resumeOffsetOff L = resumeAddrOff L + 8" by (rule resumeOffsetOff_eq)
  show "resumeOffsetOff L + 8 \<le> dataOff L" by (rule dataOff_ge)
qed (use assms in \<open>simp_all add: layout_ok_def\<close>)

lemma fresh_block_sizes:
  assumes "fresh_block E clone objSize fp numSlots s"
  shows "layout_ok (lay E)"
    "sizeof_ResumableNode (lay E) + unat (frameSize_of (lay E) numSlots) + dataOff (lay E) +
       unat objSize < 2 ^ 64"
    "unat (totalSize_of (lay E) numSlots objSize) =
       sizeof_ResumableNode (lay E) + unat (frameSize_of (lay E) numSlots) + dataOff (lay E) +
       unat objSize"
    "unat (frameSize_of (lay E) numSlots) = unat numSlots * sizeof_TypedValue (lay E)"
proof -
  let ?L = "lay E"
  show ok: "layout_ok ?L" using assms by (simp add: fresh_block_def)
  have sum: "sizeof_ResumableNode ?L + unat numSlots * sizeof_TypedValue ?L + dataOff ?L +
       unat objSize < 2 ^ 64" using assms by (simp add: fresh_block_def)
  have tv: "unat (of_nat (sizeof_TypedValue ?L) :: 64 word) = sizeof_TypedValue ?L"
    using layout_facts(9)[OF ok] by (simp add: unat_of_nat64)
  have "unat numSlots * unat (of_nat (sizeof_TypedValue ?L) :: 64 word) < 2 ^ LENGTH(64)"
    using sum unfolding tv by simp
  then have "unat (numSlots * of_nat (sizeof_TypedValue ?L)) =
               unat numSlots * unat (of_nat (sizeof_TypedValue ?L) :: 64 word)"
    by (simp only: unat_mult_lem)
  then show fs: "unat (frameSize_of ?L numSlots) = unat numSlots * sizeof_TypedValue ?L"
    by (simp add: frameSize_of_def tv)
  show lt: "sizeof_ResumableNode ?L + unat (frameSize_of ?L numSlots) + dataOff ?L +
       unat objSize < 2 ^ 64" using sum by (simp add: fs)
  have "totalSize_of ?L numSlots objSize =
          of_nat (sizeof_ResumableNode ?L + unat (frameSize_of ?L numSlots) + dataOff ?L +
                  unat objSize)"
    by (simp add: totalSize_of_def)
  then show "unat (totalSize_of ?L numSlots objSize) =
       sizeof_ResumableNode ?L + unat (frameSize_of ?L numSlots) + dataOff ?L + unat objSize"
    using lt by (simp only: unat_of_nat64)
qed

lemma resumable_of_off:
  "resumable_of L node numSlots =
     node + of_nat (sizeof_ResumableNode L + unat (frameSize_of L numSlots))"
  by (simp add: resumable_of_def)

lemma header_mem_out:
  assumes "k + resumeOffsetOff L + 8 \<le> 2 ^ 64"
    "unat (x - p) < k + resumeAddrOff L \<or> k + resumeOffsetOff L + 8 \<le> unat (x - p)"
  shows "header_mem L m (p + of_nat k) ra tot ro x = m x"
proof -
  have ro: "resumeOffsetOff L = resumeAddrOff L + 8" by (rule resumeOffsetOff_eq)
  have 1: "store_u64 m' (p + of_nat (k + resumeOffsetOff L)) w x = m' x" for m' w
    by (rule store_u64_off) (use assms ro in auto)
  have 2: "store_u64 m' (p + of_nat (k + resumeAddrOff L)) w x = m' x" for m' w
    by (rule store_u64_off) (use assms ro in auto)
  show ?thesis by (simp only: header_mem_def addr_add 1 2)
qed

lemma node_mem_out:
  assumes "layout_ok L" "sizeof_ResumableNode L \<le> unat (x - node)"
  shows "node_mem L m node numSlots x = m x"
proof -
  note lf = layout_facts[OF assms(1)]
  have 1: "store_u64 m (node + of_nat (offsetof_framesize L)) w x = m x" for w
    by (rule store_u64_off) (use assms(2) lf in auto)
  have 2: "(m'(node + of_nat (offsetof_hdr_kind L) := v)) x = m' x" for m' v
    by (rule upd_off) (use assms(2) lf in auto)
  show ?thesis by (simp only: node_mem_def 1 2)
qed

lemma setResumed_out:
  assumes "k + offsetof_flags L + 4 \<le> 2 ^ 64"
    "unat (x - p) < k + offsetof_flags L \<or> k + offsetof_flags L + 4 \<le> unat (x - p)"
  shows "ActRec_setResumed L m (p + of_nat k) x = m x"
proof -
  have "store_u32 m (p + of_nat (k + offsetof_flags L)) w x = m x" for w
    by (rule store_u32_off) (use assms in auto)
  then show ?thesis by (simp only: ActRec_setResumed_def addr_add)
qed


section \<open>The memory Create leaves\<close>

lemma source_outside_node:
  assumes "layout_ok L" "disjoint node tot src len" "sizeof_ResumableNode L \<le> unat tot"
    "i < unat len"
  shows "node_mem L m node numSlots (src + of_nat i) = m (src + of_nat i)"
proof (rule node_mem_out[OF assms(1)])
  have "i < 2 ^ 64" using assms(4) unat_lt64[of len] by simp
  then have "unat ((src + of_nat i) - src) < unat len"
    using assms(4) by (simp add: unat_of_nat64)
  then have "(src + of_nat i) - src < len" by (simp only: word_less_nat_alt)
  then have "tot \<le> (src + of_nat i) - node"
    by (rule range_disj[OF disjoint_sym[OF assms(2)]])
  then have "unat tot \<le> unat ((src + of_nat i) - node)" by (simp only: word_le_nat_alt)
  with assms(3) show "sizeof_ResumableNode L \<le> unat ((src + of_nat i) - node)" by simp
qed

lemma copied_bytes:
  assumes fb: "fresh_block E False objSize fp numSlots s"
    and al: "objMalloc_ptr E (trace s) (totalSize_of (lay E) numSlots objSize) = Some node"
    and i: "i < unat (frameSize_of (lay E) numSlots) + sizeof_ActRec (lay E)"
  shows "wordcpy (node_mem (lay E) (mem s) node numSlots)
           (node + of_nat (sizeof_ResumableNode (lay E)))
           (fp - frameSize_of (lay E) numSlots)
           (frameSize_of (lay E) numSlots + of_nat (sizeof_ActRec (lay E)))
           (node + of_nat (sizeof_ResumableNode (lay E) + i)) =
         mem s (fp - frameSize_of (lay E) numSlots + of_nat i)"
proof -
  let ?L = "lay E"
  let ?FS = "frameSize_of ?L numSlots"
  let ?T = "totalSize_of ?L numSlots objSize"
  let ?len = "?FS + of_nat (sizeof_ActRec ?L)"
  note sz = fresh_block_sizes[OF fb]
  note lf = layout_facts[OF sz(1)]
  have "?len = of_nat (unat ?FS + sizeof_ActRec ?L)" by simp
  moreover have "unat ?FS + sizeof_ActRec ?L < 2 ^ 64" using sz(2) lf by simp
  ultimately have len: "unat ?len = unat ?FS + sizeof_ActRec ?L"
    by (simp only: unat_of_nat64)
  have dj: "disjoint node ?T (fp - ?FS) ?len"
    using fb al by (simp add: fresh_block_def)
  have "wordcpy (node_mem ?L (mem s) node numSlots) (node + of_nat (sizeof_ResumableNode ?L))
          (fp - ?FS) ?len (node + of_nat (sizeof_ResumableNode ?L) + of_nat i) =
        node_mem ?L (mem s) node numSlots (fp - ?FS + of_nat i)"
    by (rule wordcpy_in) (simp add: len i)
  also have "\<dots> = mem s (fp - ?FS + of_nat i)"
    by (rule source_outside_node[OF sz(1) dj]) (simp_all add: sz(3) len i)
  finally show ?thesis by (simp only: addr_add)
qed

lemma Create_mem_copied:
  assumes fb: "fresh_block E False objSize fp numSlots s"
    and al: "objMalloc_ptr E (trace s) (totalSize_of (lay E) numSlots objSize) = Some node"
    and i: "i < unat (frameSize_of (lay E) numSlots) + sizeof_ActRec (lay E)"
    and nf: "i < unat (frameSize_of (lay E) numSlots) + offsetof_flags (lay E) \<or>
             unat (frameSize_of (lay E) numSlots) + offsetof_flags (lay E) + 4 \<le> i"
  shows "Create_mem (lay E) False objSize (mem s) node fp numSlots ra ro
           (node + of_nat (sizeof_ResumableNode (lay E) + i)) =
         mem s (fp - frameSize_of (lay E) numSlots + of_nat i)"
proof -
  let ?L = "lay E"
  let ?F = "unat (frameSize_of ?L numSlots)"
  let ?N = "sizeof_ResumableNode ?L"
  let ?x = "node + of_nat (?N + i)"
  note sz = fresh_block_sizes[OF fb]
  note lf = layout_facts[OF sz(1)]
  have d: "unat (?x - node) = ?N + i"
    by (rule at_off) (use sz(2) lf i in simp)
  have 1: "header_mem ?L m (node + of_nat (?N + ?F)) ra tot ro ?x = m ?x" for m tot
    by (rule header_mem_out) (use sz(2) lf i d in auto)
  have 2: "ActRec_setResumed ?L m (node + of_nat (?N + ?F)) ?x = m ?x" for m
    by (rule setResumed_out) (use sz(2) lf i nf d in auto)
  show ?thesis
    unfolding Create_mem_def copy_mem_def resumable_of_off actRec_def arOff_zero
    by (simp only: if_False semiring_1_class.of_nat_0 add_0_right 1 2 copied_bytes[OF fb al i])
qed

lemma of_nat_unat_frameSize:
  "(x :: 64 word) - w + of_nat (unat w + k) = x + of_nat k"
  by simp

lemma Create_mem_func:
  assumes fb: "fresh_block E False objSize fp numSlots s"
    and al: "objMalloc_ptr E (trace s) (totalSize_of (lay E) numSlots objSize) = Some node"
  shows "ActRec_func (lay E)
           (Create_mem (lay E) False objSize (mem s) node fp numSlots ra ro)
           (resumable_of (lay E) node numSlots) =
         ActRec_func (lay E) (mem s) fp"
  unfolding ActRec_func_def resumable_of_off
proof (rule load_u64_eqI)
  fix k :: nat assume k: "k < 8"
  let ?L = "lay E"
  let ?F = "unat (frameSize_of ?L numSlots)"
  note sz = fresh_block_sizes[OF fb]
  note lf = layout_facts[OF sz(1)]
  have "Create_mem ?L False objSize (mem s) node fp numSlots ra ro
          (node + of_nat (sizeof_ResumableNode ?L + (?F + (offsetof_m_func ?L + k)))) =
        mem s (fp - frameSize_of ?L numSlots + of_nat (?F + (offsetof_m_func ?L + k)))"
    by (rule Create_mem_copied[OF fb al]) (use k lf in auto)
  moreover have "node + of_nat (sizeof_ResumableNode ?L + ?F) + of_nat (offsetof_m_func ?L) + of_nat k =
      node + of_nat (sizeof_ResumableNode ?L + (?F + (offsetof_m_func ?L + k)))" by simp
  moreover have "fp - frameSize_of ?L numSlots + of_nat (?F + (offsetof_m_func ?L + k)) =
      fp + of_nat (offsetof_m_func ?L) + of_nat k" by simp
  ultimately show "Create_mem ?L False objSize (mem s) node fp numSlots ra ro
          (node + of_nat (sizeof_ResumableNode ?L + ?F) + of_nat (offsetof_m_func ?L) + of_nat k) =
        mem s (fp + of_nat (offsetof_m_func ?L) + of_nat k)"
    by (simp only:)
qed

lemma Create_mem_flags:
  assumes fb: "fresh_block E False objSize fp numSlots s"
    and al: "objMalloc_ptr E (trace s) (totalSize_of (lay E) numSlots objSize) = Some node"
  shows "load_u32 (Create_mem (lay E) False objSize (mem s) node fp numSlots ra ro)
           (resumable_of (lay E) node numSlots + of_nat (offsetof_flags (lay E))) =
         load_u32 (mem s) (fp + of_nat (offsetof_flags (lay E))) OR resumed_bit (lay E)"
proof -
  let ?L = "lay E"
  let ?F = "unat (frameSize_of ?L numSlots)"
  let ?N = "sizeof_ResumableNode ?L"
  let ?fl = "offsetof_flags ?L"
  let ?r = "node + of_nat (?N + ?F)"
  let ?M3 = "wordcpy (node_mem ?L (mem s) node numSlots) (node + of_nat ?N)
               (fp - frameSize_of ?L numSlots)
               (frameSize_of ?L numSlots + of_nat (sizeof_ActRec ?L))"
  note sz = fresh_block_sizes[OF fb]
  note lf = layout_facts[OF sz(1)]
  have hdr: "load_u32 (header_mem ?L m ?r ra tot ro) (?r + of_nat ?fl) = load_u32 m (?r + of_nat ?fl)"
    for m tot
  proof (rule load_u32_eqI)
    fix k :: nat assume k: "k < 4"
    have d: "unat (node + of_nat (?N + ?F + ?fl + k) - node) = ?N + ?F + ?fl + k"
      by (rule at_off) (use sz(2) lf k in simp)
    have "header_mem ?L m ?r ra tot ro (node + of_nat (?N + ?F + ?fl + k)) =
            m (node + of_nat (?N + ?F + ?fl + k))"
      by (rule header_mem_out) (use sz(2) lf k d in auto)
    then show "header_mem ?L m ?r ra tot ro (?r + of_nat ?fl + of_nat k) =
            m (?r + of_nat ?fl + of_nat k)"
      by (simp only: addr_add)
  qed
  have src: "load_u32 ?M3 (?r + of_nat ?fl) = load_u32 (mem s) (fp + of_nat ?fl)"
  proof (rule load_u32_eqI)
    fix k :: nat assume k: "k < 4"
    have "?M3 (node + of_nat (?N + (?F + (?fl + k)))) =
            mem s (fp - frameSize_of ?L numSlots + of_nat (?F + (?fl + k)))"
      by (rule copied_bytes[OF fb al]) (use k lf in auto)
    moreover have "?r + of_nat ?fl + of_nat k = node + of_nat (?N + (?F + (?fl + k)))" by simp
    moreover have "fp - frameSize_of ?L numSlots + of_nat (?F + (?fl + k)) =
        fp + of_nat ?fl + of_nat k" by simp
    ultimately show "?M3 (?r + of_nat ?fl + of_nat k) = mem s (fp + of_nat ?fl + of_nat k)"
      by (simp only:)
  qed
  show ?thesis
    unfolding Create_mem_def copy_mem_def resumable_of_off actRec_def arOff_zero
    by (simp only: if_False semiring_1_class.of_nat_0 add_0_right hdr ActRec_setResumed_def
          load_store_u32 src)
qed

lemma clone_len:
  assumes "layout_ok L"
  shows "(of_nat (sizeof_ActRec L) - of_nat (offsetof_m_func L) :: 64 word) =
           of_nat (sizeof_ActRec L - offsetof_m_func L)"
    "unat (of_nat (sizeof_ActRec L) - of_nat (offsetof_m_func L) :: 64 word) =
           sizeof_ActRec L - offsetof_m_func L"
proof -
  note lf = layout_facts[OF assms]
  have le: "offsetof_m_func L \<le> sizeof_ActRec L" using lf by linarith
  show 1: "(of_nat (sizeof_ActRec L) - of_nat (offsetof_m_func L) :: 64 word) =
           of_nat (sizeof_ActRec L - offsetof_m_func L)"
    using le by (simp add: of_nat_diff)
  have "sizeof_ActRec L - offsetof_m_func L < 2 ^ 64" using lf by simp
  then show "unat (of_nat (sizeof_ActRec L) - of_nat (offsetof_m_func L) :: 64 word) =
           sizeof_ActRec L - offsetof_m_func L"
    unfolding 1 by (rule unat_of_nat64)
qed

lemma unat_of_nat_ActRec:
  assumes "layout_ok L"
  shows "unat (of_nat (sizeof_ActRec L) :: 64 word) = sizeof_ActRec L"
  by (rule unat_of_nat64) (use layout_facts[OF assms] in simp)

lemma Create_mem_cloned:
  assumes fb: "fresh_block E True objSize fp numSlots s"
    and al: "objMalloc_ptr E (trace s) (totalSize_of (lay E) numSlots objSize) = Some node"
    and i: "offsetof_m_func (lay E) \<le> i" "i < sizeof_ActRec (lay E)"
  shows "Create_mem (lay E) True objSize (mem s) node fp numSlots ra ro
           (resumable_of (lay E) node numSlots + of_nat i) = mem s (fp + of_nat i)"
proof -
  let ?L = "lay E"
  let ?F = "unat (frameSize_of ?L numSlots)"
  let ?N = "sizeof_ResumableNode ?L"
  let ?off = "offsetof_m_func ?L"
  let ?r = "node + of_nat (?N + ?F)"
  let ?x = "node + of_nat (?N + ?F + i)"
  note sz = fresh_block_sizes[OF fb]
  note lf = layout_facts[OF sz(1)]
  have dj: "disjoint node (totalSize_of ?L numSlots objSize) fp (of_nat (sizeof_ActRec ?L))"
    using fb al by (simp add: fresh_block_def)
  have d: "unat (?x - node) = ?N + ?F + i"
    by (rule at_off) (use sz(2) lf i in simp)
  have 1: "header_mem ?L m ?r ra tot ro ?x = m ?x" for m tot
    by (rule header_mem_out) (use sz(2) lf i d in auto)
  have x: "?r + of_nat ?off + of_nat (i - ?off) = ?x" using i by simp
  have y: "fp + of_nat ?off + of_nat (i - ?off) = fp + of_nat i" using i by simp
  have "wordcpy (node_mem ?L (mem s) node numSlots) (?r + of_nat ?off) (fp + of_nat ?off)
          (of_nat (sizeof_ActRec ?L) - of_nat ?off) (?r + of_nat ?off + of_nat (i - ?off)) =
        node_mem ?L (mem s) node numSlots (fp + of_nat ?off + of_nat (i - ?off))"
    by (rule wordcpy_in) (use i in \<open>simp add: clone_len(2)[OF sz(1)]\<close>)
  then have 2: "wordcpy (node_mem ?L (mem s) node numSlots) (?r + of_nat ?off) (fp + of_nat ?off)
          (of_nat (sizeof_ActRec ?L) - of_nat ?off) ?x =
        node_mem ?L (mem s) node numSlots (fp + of_nat i)"
    by (simp only: x y)
  have 3: "node_mem ?L (mem s) node numSlots (fp + of_nat i) = mem s (fp + of_nat i)"
    by (rule source_outside_node[OF sz(1) dj])
       (simp_all add: sz(3) unat_of_nat_ActRec[OF sz(1)] i)
  have r: "?r + of_nat i = ?x" by simp
  show ?thesis
    unfolding Create_mem_def copy_mem_def resumable_of_off actRec_def arOff_zero
    by (simp only: if_True semiring_1_class.of_nat_0 add_0_right r 1 2 3)
qed

lemma Create_mem_clone_untouched:
  assumes fb: "fresh_block E True objSize fp numSlots s"
    and i: "i < unat (frameSize_of (lay E) numSlots) + offsetof_m_func (lay E)"
  shows "Create_mem (lay E) True objSize (mem s) node fp numSlots ra ro
           (node + of_nat (sizeof_ResumableNode (lay E) + i)) =
         mem s (node + of_nat (sizeof_ResumableNode (lay E) + i))"
proof -
  let ?L = "lay E"
  let ?F = "unat (frameSize_of ?L numSlots)"
  let ?N = "sizeof_ResumableNode ?L"
  let ?off = "offsetof_m_func ?L"
  let ?r = "node + of_nat (?N + ?F)"
  let ?x = "node + of_nat (?N + i)"
  note sz = fresh_block_sizes[OF fb]
  note lf = layout_facts[OF sz(1)]
  have d: "unat (?x - node) = ?N + i"
    by (rule at_off) (use sz(2) lf i in simp)
  have 1: "header_mem ?L m ?r ra tot ro ?x = m ?x" for m tot
    by (rule header_mem_out) (use sz(2) lf i d in auto)
  have 2: "wordcpy m (node + of_nat (?N + ?F + ?off)) src
             (of_nat (sizeof_ActRec ?L) - of_nat ?off) ?x = m ?x" for m src
    by (rule wordcpy_off) (use sz(2) lf i d in \<open>auto simp: clone_len(2)[OF sz(1)]\<close>)
  have 3: "node_mem ?L (mem s) node numSlots ?x = mem s ?x"
    by (rule node_mem_out[OF sz(1)]) (simp only: d le_add1)
  show ?thesis
    unfolding Create_mem_def copy_mem_def resumable_of_off actRec_def arOff_zero
    by (simp only: if_True semiring_1_class.of_nat_0 add_0_right addr_add 1 2 3)
qed

lemma Create_mem_clone_func:
  assumes fb: "fresh_block E True objSize fp numSlots s"
    and al: "objMalloc_ptr E (trace s) (totalSize_of (lay E) numSlots objSize) = Some node"
  shows "ActRec_func (lay E)
           (Create_mem (lay E) True objSize (mem s) node fp numSlots ra ro)
           (resumable_of (lay E) node numSlots) =
         ActRec_func (lay E) (mem s) fp"
  unfolding ActRec_func_def
proof (rule load_u64_eqI)
  fix k :: nat assume k: "k < 8"
  note lf = layout_facts[OF fresh_block_sizes(1)[OF fb]]
  have "Create_mem (lay E) True objSize (mem s) node fp numSlots ra ro
          (resumable_of (lay E) node numSlots + of_nat (offsetof_m_func (lay E) + k)) =
        mem s (fp + of_nat (offsetof_m_func (lay E) + k))"
    by (rule Create_mem_cloned[OF fb al]) (use k lf in auto)
  then show "Create_mem (lay E) True objSize (mem s) node fp numSlots ra ro
          (resumable_of (lay E) node numSlots + of_nat (offsetof_m_func (lay E)) + of_nat k) =
        mem s (fp + of_nat (offsetof_m_func (lay E)) + of_nat k)"
    by (simp only: addr_add)
qed

lemma Create_mem_clone_flags:
  assumes fb: "fresh_block E True objSize fp numSlots s"
    and al: "objMalloc_ptr E (trace s) (totalSize_of (lay E) numSlots objSize) = Some node"
  shows "load_u32 (Create_mem (lay E) True objSize (mem s) node fp numSlots ra ro)
           (resumable_of (lay E) node numSlots + of_nat (offsetof_flags (lay E))) =
         load_u32 (mem s) (fp + of_nat (offsetof_flags (lay E)))"
proof (rule load_u32_eqI)
  fix k :: nat assume k: "k < 4"
  note lf = layout_facts[OF fresh_block_sizes(1)[OF fb]]
  have "Create_mem (lay E) True objSize (mem s) node fp numSlots ra ro
          (resumable_of (lay E) node numSlots + of_nat (offsetof_flags (lay E) + k)) =
        mem s (fp + of_nat (offsetof_flags (lay E) + k))"
    by (rule Create_mem_cloned[OF fb al]) (use k lf in auto)
  then show "Create_mem (lay E) True objSize (mem s) node fp numSlots ra ro
          (resumable_of (lay E) node numSlots + of_nat (offsetof_flags (lay E)) + of_nat k) =
        mem s (fp + of_nat (offsetof_flags (lay E)) + of_nat k)"
    by (simp only: addr_add)
qed


section \<open>Runs of Create\<close>

lemma Create_Inr_iff:
  "Create E clone objSize mayUseVV fp numSlots ra ro s = Inr (h, s') \<longleftrightarrow>
     Create_pre E clone mayUseVV fp ro s \<and>
     (\<exists>node. objMalloc_ptr E (trace s) (totalSize_of (lay E) numSlots objSize) = Some node \<and>
        h = resumable_of (lay E) node numSlots + of_nat (dataOff (lay E)) \<and>
        mem s' = Create_mem (lay E) clone objSize (mem s) node fp numSlots ra ro \<and>
        trace s' = trace s @ ObjMalloc (totalSize_of (lay E) numSlots objSize) node #
                     handoff E clone mayUseVV fp (actRec (lay E) (resumable_of (lay E) node numSlots)) s)"
  unfolding Create_def Create_pre_def Create_mem_def header_mem_def copy_mem_def node_mem_def
    handoff_def resumable_of_def totalSize_of_def frameSize_of_def objMalloc_def Let_def
  by (cases s') (auto split: option.splits)

lemma x64_offsets:
  "arOff x64 = 0" "resumeAddrOff x64 = 48" "resumeOffsetOff x64 = 56" "dataOff x64 = 64"
  "sizeOff x64 = 60" "sizeof_Header x64 = 16"
  by (simp_all add: arOff_def resumeAddrOff_def resumeOffsetOff_def dataOff_def sizeOff_def
      sizeof_Header_def Resumable_fields_def align_up_def x64_def Let_def)

lemma x64_fields:
  "sizeof_ResumableNode x64 = 16" "offsetof_framesize x64 = 0" "offsetof_hdr_kind x64 = 11"
  "sizeof_TypedValue x64 = 16" "sizeof_ActRec x64 = 48" "alignof_ActRec x64 = 8"
  "offsetof_m_func x64 = 16" "offsetof_flags x64 = 28" "resumed_bit x64 = 0x20000000"
  by (simp_all add: x64_def)

lemma live_frame_func: "ActRec_func x64 (mem live_frame) 0x7000 = 0x5000"
  by (simp add: ActRec_func_def live_frame_def x64_fields)

lemma live_frame_resumed: "\<not> ActRec_resumed x64 (mem live_frame) 0x7000"
  by (simp add: ActRec_resumed_def live_frame_def x64_fields load_u32_def store_u64_def store_u32_def)

lemma suspended_frame_func: "ActRec_func x64 (mem suspended_frame) 0x7000 = 0x5000"
  by (simp add: ActRec_func_def suspended_frame_def x64_fields load_u64_def load_u32_def store_u64_def store_u32_def)

lemma suspended_frame_resumed: "ActRec_resumed x64 (mem suspended_frame) 0x7000"
  by (simp add: ActRec_resumed_def suspended_frame_def x64_fields)

lemma E0_simps: "lay E0 = x64" "funcs E0 p = f100"
  by (simp_all add: E0_def)

lemma contains_f100:
  "contains f100 12" "contains f100 55" "\<not> contains f100 100" "\<not> contains f100 200"
  by (simp_all add: contains_def f100_def word_sle_eq word_sless_alt)

lemma contains_f100_12: "contains f100 12"
  by (simp add: contains_def f100_def word_sle_eq word_sless_alt)

lemma run_live: "Create E0 False 40 True 0x7000 3 0xCAFE 12 live_frame = Inr (0x10080, created)"
  unfolding Create_Inr_iff
  by (simp add: Create_pre_def E0_def live_frame_func live_frame_resumed contains_f100_12
      totalSize_of_def frameSize_of_def resumable_of_def x64_fields x64_offsets created_def
      handoff_def actRec_def, simp add: f100_def live_frame_def)

lemma run_clone: "Create E0 True 40 True 0x7000 3 0xCAFE 12 suspended_frame = Inr (0x10080, cloned)"
  unfolding Create_Inr_iff
  by (simp add: Create_pre_def E0_def suspended_frame_func suspended_frame_resumed contains_f100_12
      totalSize_of_def frameSize_of_def resumable_of_def x64_fields x64_offsets cloned_def
      handoff_def actRec_def, simp add: f100_def suspended_frame_def)


lemma events_since_append: "trace s' = trace s @ es \<Longrightarrow> events_since s s' = es"
  by (simp add: events_since_def)

lemma requested_handoff: "requested (handoff E clone mayUseVV fp ar s) = []"
  by (simp add: handoff_def)

lemma Resumable_is_ActRec_and_Header: "dataOff L = sizeof_ActRec L + sizeof_Header L"
  using dataOff_ge_ActRec[of L] by (simp add: sizeof_Header_def)

lemma totalSize_five_regions:
  "totalSize_of L numSlots objSize =
     of_nat (sizeof_ResumableNode L) + numSlots * of_nat (sizeof_TypedValue L) +
     of_nat (sizeof_ActRec L) + of_nat (sizeof_Header L) + objSize"
  by (simp add: totalSize_of_def frameSize_of_def Resumable_is_ActRec_and_Header)

lemma unat_five_regions:
  fixes numSlots objSize :: "64 word"
  assumes "a + unat numSlots * b + c + d + unat objSize < 2 ^ 64"
  shows "unat (of_nat a + numSlots * of_nat b + of_nat c + of_nat d + objSize) =
           a + unat numSlots * b + c + d + unat objSize"
proof -
  have "(of_nat a + numSlots * of_nat b + of_nat c + of_nat d + objSize :: 64 word) =
          of_nat (a + unat numSlots * b + c + d + unat objSize)"
    by simp
  then show ?thesis using assms by (simp only: unat_of_nat64)
qed

text \<open>
  C1. A run of \<open>Create\<close> that returns a handle made exactly one request to the memory
  manager, and the size it asked for is the sum of the five regions: the frame node, one
  slot size per local slot, the activation record, the rest of the header and the trailing
  payload. The sum is the one \<^verbatim>\<open>size_t\<close> arithmetic gives; when the five sizes add up
  to less than \<open>2 ^ 64\<close> it is their sum as numbers.
\<close>

theorem Create_requests_five_regions:
  assumes "Create E clone objSize mayUseVV fp numSlots ra ro s = Inr (h, s')"
  shows "requested (events_since s s') =
           [of_nat (sizeof_ResumableNode (lay E)) +
            numSlots * of_nat (sizeof_TypedValue (lay E)) +
            of_nat (sizeof_ActRec (lay E)) + of_nat (sizeof_Header (lay E)) + objSize] \<and>
         (sizeof_ResumableNode (lay E) + unat numSlots * sizeof_TypedValue (lay E) +
            sizeof_ActRec (lay E) + sizeof_Header (lay E) + unat objSize < 2 ^ 64 \<longrightarrow>
          map unat (requested (events_since s s')) =
            [sizeof_ResumableNode (lay E) + unat numSlots * sizeof_TypedValue (lay E) +
             sizeof_ActRec (lay E) + sizeof_Header (lay E) + unat objSize])"
proof -
  from assms obtain node where
    tr: "trace s' = trace s @ ObjMalloc (totalSize_of (lay E) numSlots objSize) node #
           handoff E clone mayUseVV fp (actRec (lay E) (resumable_of (lay E) node numSlots)) s"
    unfolding Create_Inr_iff by blast
  have req: "requested (events_since s s') = [totalSize_of (lay E) numSlots objSize]"
    by (simp add: events_since_append[OF tr] requested_handoff)
  show ?thesis
    unfolding req totalSize_five_regions
    by (simp add: unat_five_regions)
qed

theorem Create_requests_five_regions_witness:
  "Create E0 False 40 True 0x7000 3 0xCAFE 12 live_frame = Inr (0x10080, created) \<and>
   (16::nat) + unat (3 :: size_t) * 16 + 48 + 16 + unat (40 :: size_t) < 2 ^ 64 \<and>
   requested (events_since live_frame created) = [168] \<and>
   map unat (requested (events_since live_frame created)) = [16 + 3 * 16 + 48 + 16 + 40]"
  using Create_requests_five_regions[OF run_live] run_live
  by (simp add: E0_def x64_fields x64_offsets)

text \<open>
  C3. The activation record is the first member of \<open>Resumable\<close>: its offset is 0 for
  every size and alignment of \<open>ActRec\<close>, so the pointer \<open>actRec()\<close> returns is the
  header pointer itself, for the header of every handle.
\<close>

theorem arOff_is_zero:
  "arOff L = 0 \<and> actRec L r = r \<and> actRec L (FromObj L h) = FromObj L h"
proof -
  have "field_offsets 0 (Resumable_fields L) ! 0 = align_up (alignof_ActRec L) 0"
    by (simp add: Resumable_fields_def Let_def)
  also have "\<dots> = 0" by (rule align_up_zero)
  finally have z: "arOff L = 0" by (simp only: arOff_def)
  have "actRec L p = p" for p
    by (simp add: actRec_def z)
  then show ?thesis using z by simp
qed

text \<open>
  C7. A run of \<open>Create\<close> that returns a handle called the hand-off of the variable
  environment once, with the caller frame and the new activation record, when it is not a
  clone, the function has \<^verbatim>\<open>AttrMayUseVV\<close> and the caller frame has a variable
  environment; otherwise it did not call it. A clone never calls it.
\<close>

theorem Create_handoff_count:
  assumes "Create E clone objSize mayUseVV fp numSlots ra ro s = Inr (h, s')"
  shows "filter is_VarEnvSuspend (events_since s s') =
           (if \<not> clone \<and> attrMayUseVV (funcs E (ActRec_func (lay E) (mem s) fp)) \<and>
               hasVarEnv E fp
            then [VarEnvSuspend fp (actRec (lay E) (FromObj (lay E) h))] else [])"
proof -
  from assms obtain node where
    pre: "Create_pre E clone mayUseVV fp ro s" and
    h: "h = resumable_of (lay E) node numSlots + of_nat (dataOff (lay E))" and
    tr: "trace s' = trace s @ ObjMalloc (totalSize_of (lay E) numSlots objSize) node #
           handoff E clone mayUseVV fp (actRec (lay E) (resumable_of (lay E) node numSlots)) s"
    unfolding Create_Inr_iff by blast
  have r: "FromObj (lay E) h = resumable_of (lay E) node numSlots"
    by (simp add: h FromObj_def)
  from pre have "clone \<or> mayUseVV \<or> \<not> attrMayUseVV (funcs E (ActRec_func (lay E) (mem s) fp))"
    by (simp add: Create_pre_def)
  then show ?thesis
    by (auto simp: events_since_append[OF tr] handoff_def r)
qed

theorem Create_handoff_count_witness:
  "Create E0 False 40 True 0x7000 3 0xCAFE 12 live_frame = Inr (0x10080, created) \<and>
   filter is_VarEnvSuspend (events_since live_frame created) = [VarEnvSuspend 0x7000 0x10040] \<and>
   Create E0 True 40 True 0x7000 3 0xCAFE 12 suspended_frame = Inr (0x10080, cloned) \<and>
   filter is_VarEnvSuspend (events_since suspended_frame cloned) = []"
  using Create_handoff_count[OF run_live] Create_handoff_count[OF run_clone] run_live run_clone
  by (simp add: E0_def live_frame_func f100_def actRec_def FromObj_def x64_offsets)


section \<open>The header Create fills\<close>

lemma load_u64_store_u64_next: "load_u64 (store_u64 m (p + 8) w) p = load_u64 m p"
proof (rule load_u64_cong)
  fix k :: "64 word" assume "k < 8"
  then have "8 \<le> unat (k - 8)" by (simp add: unat_sub64 word_less_nat_alt)
  then have "8 \<le> (p + k) - (p + 8)" by (simp add: word_le_nat_alt)
  then show "store_u64 m (p + 8) w (p + k) = m (p + k)" by (rule store_u64_out)
qed

lemma header_resumeAddr: "m_resumeAddr L (header_mem L m r ra tot ro) r = ra"
  by (simp add: m_resumeAddr_def header_mem_def resumeOffsetOff_eq load_u64_store_u64_next
        add.assoc[symmetric])

lemma header_offsetAndSize:
  "m_offsetAndSize L (header_mem L m r ra tot ro) r = push_bit 32 tot OR scast ro"
  by (simp add: m_offsetAndSize_def header_mem_def)

lemma header_resumeOffset: "m_resumeOffset L (header_mem L m r ra tot ro) r = ro"
  by (simp add: m_resumeOffset_def header_mem_def pack_lo)

lemma header_size:
  "m_size L (header_mem L m r ra tot ro) r = ucast (drop_bit 32 (push_bit 32 tot OR scast ro))"
  by (simp add: m_size_def sizeOff_def header_mem_def add.assoc[symmetric])

lemma header_size_R:
  "0 \<le> sint ro \<Longrightarrow> size_R L (header_mem L m r ra tot ro) r = scast (ucast tot :: 32 word)"
  by (simp only: size_R_def header_size pack_hi)

lemma contains_nonneg:
  assumes "Func_ok f" "contains f ro"
  shows "0 \<le> sint ro"
  using assms by (simp add: Func_ok_def contains_def word_sle_eq)

lemma FromObj_handle: "FromObj L (r + of_nat (dataOff L)) = r"
  by (simp add: FromObj_def)

lemma Create_InrD:
  assumes "Create E clone objSize mayUseVV fp numSlots ra ro s = Inr (h, s')"
  obtains node where
    "Create_pre E clone mayUseVV fp ro s"
    "objMalloc_ptr E (trace s) (totalSize_of (lay E) numSlots objSize) = Some node"
    "FromObj (lay E) h = resumable_of (lay E) node numSlots"
    "h = resumable_of (lay E) node numSlots + of_nat (dataOff (lay E))"
    "mem s' = Create_mem (lay E) clone objSize (mem s) node fp numSlots ra ro"
    "trace s' = trace s @ ObjMalloc (totalSize_of (lay E) numSlots objSize) node #
       handoff E clone mayUseVV fp (actRec (lay E) (resumable_of (lay E) node numSlots)) s"
proof -
  from assms obtain node where
    a: "Create_pre E clone mayUseVV fp ro s"
    "objMalloc_ptr E (trace s) (totalSize_of (lay E) numSlots objSize) = Some node"
    "h = resumable_of (lay E) node numSlots + of_nat (dataOff (lay E))"
    "mem s' = Create_mem (lay E) clone objSize (mem s) node fp numSlots ra ro"
    "trace s' = trace s @ ObjMalloc (totalSize_of (lay E) numSlots objSize) node #
       handoff E clone mayUseVV fp (actRec (lay E) (resumable_of (lay E) node numSlots)) s"
    unfolding Create_Inr_iff by blast
  show thesis
    by (rule that[OF a(1,2) _ a(3,4,5)]) (simp add: a(3) FromObj_handle)
qed

lemma Create_pre_nonneg:
  assumes "Create_pre E clone mayUseVV fp ro s"
    "Func_ok (funcs E (ActRec_func (lay E) (mem s) fp))"
  shows "0 \<le> sint ro"
  using assms contains_nonneg by (simp add: Create_pre_def)

lemma Create_succeeds:
  assumes "Create_pre E clone mayUseVV fp ro s"
    "objMalloc_ptr E (trace s) (totalSize_of (lay E) numSlots objSize) \<noteq> None"
  shows "\<exists>h s'. Create E clone objSize mayUseVV fp numSlots ra ro s = Inr (h, s')"
proof -
  from assms(2) obtain node where
    n: "objMalloc_ptr E (trace s) (totalSize_of (lay E) numSlots objSize) = Some node" by auto
  have "Create E clone objSize mayUseVV fp numSlots ra ro s =
          Inr (resumable_of (lay E) node numSlots + of_nat (dataOff (lay E)),
               \<lparr>mem = Create_mem (lay E) clone objSize (mem s) node fp numSlots ra ro,
                trace = trace s @ ObjMalloc (totalSize_of (lay E) numSlots objSize) node #
                  handoff E clone mayUseVV fp
                    (actRec (lay E) (resumable_of (lay E) node numSlots)) s\<rparr>)"
    unfolding Create_Inr_iff using assms(1) n by simp
  then show ?thesis by blast
qed

lemma Create_out_of_bounds:
  assumes "Create_pre E clone mayUseVV fp ro s"
    and "\<not> contains (funcs E (ActRec_func (lay E) (mem s) fp)) ro'"
  shows "Create E clone objSize mayUseVV fp numSlots ra ro' s = Inl Assert_contains"
  using assms by (simp add: Create_def Create_pre_def Let_def)

lemma Create_func:
  assumes "fresh_block E clone objSize fp numSlots s"
    and "objMalloc_ptr E (trace s) (totalSize_of (lay E) numSlots objSize) = Some node"
  shows "ActRec_func (lay E)
           (Create_mem (lay E) clone objSize (mem s) node fp numSlots ra ro)
           (resumable_of (lay E) node numSlots) =
         ActRec_func (lay E) (mem s) fp"
  using assms Create_mem_func Create_mem_clone_func by (cases clone) simp_all

lemma Create_resumeOffset:
  assumes run: "Create E clone objSize mayUseVV fp numSlots ra ro s = Inr (h, s')"
    and fb: "fresh_block E clone objSize fp numSlots s"
  shows "resumeOffset E (mem s') (FromObj (lay E) h) = Inr ro"
proof -
  let ?L = "lay E"
  from run obtain node where
    pre: "Create_pre E clone mayUseVV fp ro s" and
    al: "objMalloc_ptr E (trace s) (totalSize_of ?L numSlots objSize) = Some node" and
    r: "FromObj ?L h = resumable_of ?L node numSlots" and
    m: "mem s' = Create_mem ?L clone objSize (mem s) node fp numSlots ra ro"
    by (rule Create_InrD)
  have off: "m_resumeOffset ?L (mem s') (FromObj ?L h) = ro"
    unfolding m r Create_mem_def by (rule header_resumeOffset)
  have fn: "ActRec_func ?L (mem s') (actRec ?L (FromObj ?L h)) = ActRec_func ?L (mem s) fp"
    unfolding m r actRec_def arOff_zero using Create_func[OF fb al] by simp
  have "contains (funcs E (ActRec_func ?L (mem s) fp)) ro"
    using pre by (simp add: Create_pre_def)
  then show ?thesis
    by (simp add: resumeOffset_def off fn)
qed

lemma x64_ok: "layout_ok x64"
  by (simp add: layout_ok_def x64_def)

lemma f100_ok: "Func_ok f100"
  by (simp add: Func_ok_def f100_def word_sle_eq)

lemma fresh_live: "fresh_block E0 False 40 0x7000 3 live_frame"
  by (simp add: fresh_block_def E0_def x64_ok x64_fields x64_offsets totalSize_of_def
        frameSize_of_def disjoint_def word_le_nat_alt)

lemma fresh_suspended: "fresh_block E0 True 40 0x7000 3 suspended_frame"
  by (simp add: fresh_block_def E0_def x64_ok x64_fields x64_offsets totalSize_of_def
        frameSize_of_def disjoint_def word_le_nat_alt)

lemma valid_sizes_total:
  assumes "valid_sizes L numSlots objSize"
  shows "unat (totalSize_of L numSlots objSize) < 2 ^ 31"
proof -
  have "totalSize_of L numSlots objSize =
          of_nat (sizeof_ResumableNode L + unat numSlots * sizeof_TypedValue L + dataOff L +
                  unat objSize)"
    by (simp add: totalSize_of_def frameSize_of_def)
  moreover have "sizeof_ResumableNode L + unat numSlots * sizeof_TypedValue L + dataOff L +
                  unat objSize < 2 ^ 64"
    using assms unfolding valid_sizes_def by (rule less_trans) simp
  ultimately have "unat (totalSize_of L numSlots objSize) =
      sizeof_ResumableNode L + unat numSlots * sizeof_TypedValue L + dataOff L + unat objSize"
    by (simp only: unat_of_nat64)
  then show ?thesis using assms by (simp only: valid_sizes_def)
qed

lemma filter_handoff: "filter (\<lambda>e. \<not> is_VarEnvSuspend e) (handoff E clone mayUseVV fp ar s) = []"
  by (simp add: handoff_def)

text \<open>
  C2. \<open>Create\<close> followed by \<open>Destroy\<close> of the handle it returned, with the size
  \<open>Create\<close> computed, leaves, apart from the hand-off, exactly three events in this
  order: the request of the total size, answered with a pointer; the teardown of the
  payload at the handle; and the release of that same pointer with that same size. When
  the slot count and the payload size are valid and the bounds of the function are not
  negative, the size the header gives back is that total, so the same holds for
  \<open>destroy\<close>, which takes the size from the header.
\<close>

theorem create_destroy_roundtrip:
  assumes "Create E clone objSize mayUseVV fp numSlots ra ro s = Inr (h, s1)"
  shows "\<exists>p. objMalloc_ptr E (trace s) (totalSize_of (lay E) numSlots objSize) = Some p \<and>
           filter (\<lambda>e. \<not> is_VarEnvSuspend e)
               (events_since s
                  (Destroy objSize (totalSize_of (lay E) numSlots objSize) h s1)) =
             [ObjMalloc (totalSize_of (lay E) numSlots objSize) p, Destruct h,
              ObjFree p (totalSize_of (lay E) numSlots objSize)] \<and>
           (valid_sizes (lay E) numSlots objSize \<and>
            Func_ok (funcs E (ActRec_func (lay E) (mem s) fp)) \<longrightarrow>
              size_R (lay E) (mem s1) (FromObj (lay E) h) =
                totalSize_of (lay E) numSlots objSize \<and>
              filter (\<lambda>e. \<not> is_VarEnvSuspend e)
                  (events_since s (destroy (lay E) objSize h s1)) =
                [ObjMalloc (totalSize_of (lay E) numSlots objSize) p, Destruct h,
                 ObjFree p (totalSize_of (lay E) numSlots objSize)])"
proof -
  let ?L = "lay E"
  let ?T = "totalSize_of ?L numSlots objSize"
  from assms(1) obtain node where
    pre: "Create_pre E clone mayUseVV fp ro s" and
    al: "objMalloc_ptr E (trace s) ?T = Some node" and
    r: "FromObj ?L h = resumable_of ?L node numSlots" and
    h: "h = resumable_of ?L node numSlots + of_nat (dataOff ?L)" and
    m: "mem s1 = Create_mem ?L clone objSize (mem s) node fp numSlots ra ro" and
    tr: "trace s1 = trace s @ ObjMalloc ?T node #
           handoff E clone mayUseVV fp (actRec ?L (resumable_of ?L node numSlots)) s"
    by (rule Create_InrD)
  have base: "h + objSize - ?T = node"
    by (simp add: h resumable_of_def totalSize_of_def)
  have "trace (Destroy objSize ?T h s1) = trace s @ (ObjMalloc ?T node #
           handoff E clone mayUseVV fp (actRec ?L (resumable_of ?L node numSlots)) s @
           [Destruct h, ObjFree node ?T])"
    by (simp add: Destroy_def objFree_def Let_def base tr)
  then have "events_since s (Destroy objSize ?T h s1) = ObjMalloc ?T node #
           handoff E clone mayUseVV fp (actRec ?L (resumable_of ?L node numSlots)) s @
           [Destruct h, ObjFree node ?T]"
    by (rule events_since_append)
  then have 1: "filter (\<lambda>e. \<not> is_VarEnvSuspend e) (events_since s (Destroy objSize ?T h s1)) =
      [ObjMalloc ?T node, Destruct h, ObjFree node ?T]"
    by (simp add: filter_handoff)
  have 2: "size_R ?L (mem s1) (FromObj ?L h) = ?T"
    if v: "valid_sizes ?L numSlots objSize"
      and ok: "Func_ok (funcs E (ActRec_func ?L (mem s) fp))"
  proof -
    have "size_R ?L (mem s1) (FromObj ?L h) = scast (ucast ?T :: 32 word)"
      unfolding m r Create_mem_def
      by (rule header_size_R) (rule Create_pre_nonneg[OF pre ok])
    also have "\<dots> = ?T"
      by (rule sign_extend_small) (rule valid_sizes_total[OF v])
    finally show ?thesis .
  qed
  have 3: "destroy ?L objSize h s1 = Destroy objSize ?T h s1"
    if "valid_sizes ?L numSlots objSize" "Func_ok (funcs E (ActRec_func ?L (mem s) fp))"
    using 2[OF that] by (simp add: destroy_def)
  show ?thesis using al 1 2 3 by auto
qed

theorem create_destroy_roundtrip_witness:
  "Create E0 False 40 True 0x7000 3 0xCAFE 12 live_frame = Inr (0x10080, created) \<and>
   valid_sizes x64 3 40 \<and> Func_ok f100 \<and>
   size_R x64 (mem created) (FromObj x64 0x10080) = 168 \<and>
   filter (\<lambda>e. \<not> is_VarEnvSuspend e)
     (events_since live_frame (destroy x64 40 0x10080 created)) =
   [ObjMalloc 168 0x10000, Destruct 0x10080, ObjFree 0x10000 168]"
proof -
  have v: "valid_sizes x64 3 40"
    by (simp add: valid_sizes_def x64_fields x64_offsets)
  have t: "totalSize_of x64 3 40 = 168"
    by (simp add: totalSize_of_def frameSize_of_def x64_fields x64_offsets)
  have e: "lay E0 = x64" "funcs E0 (ActRec_func x64 (mem live_frame) 0x7000) = f100"
    "objMalloc_ptr E0 (trace live_frame) 168 = Some 0x10000"
    by (simp_all add: E0_def)
  show ?thesis
    using create_destroy_roundtrip[OF run_live] run_live v f100_ok
    unfolding e t by (simp add: e)
qed

lemma run_2GiB:
  "Create E0 True 40 True 0x7000 0x8000000 0xCAFE 12 suspended_frame =
     Inr (0x80010050, cloned_2GiB)"
  unfolding Create_Inr_iff
  by (simp add: Create_pre_def E0_def suspended_frame_func suspended_frame_resumed contains_f100_12
      totalSize_of_def frameSize_of_def resumable_of_def x64_fields x64_offsets cloned_2GiB_def
      handoff_def actRec_def, simp add: f100_def suspended_frame_def)

lemma Create_size_R:
  assumes "Create E clone objSize mayUseVV fp numSlots ra ro s = Inr (h, s')"
    and "Func_ok (funcs E (ActRec_func (lay E) (mem s) fp))"
  shows "m_size (lay E) (mem s') (FromObj (lay E) h) =
           ucast (totalSize_of (lay E) numSlots objSize)"
    and "size_R (lay E) (mem s') (FromObj (lay E) h) =
           scast (ucast (totalSize_of (lay E) numSlots objSize) :: 32 word)"
    and "m_offsetAndSize (lay E) (mem s') (FromObj (lay E) h) =
           push_bit 32 (totalSize_of (lay E) numSlots objSize) OR ucast ro"
proof -
  from assms(1) obtain node where
    pre: "Create_pre E clone mayUseVV fp ro s" and
    r: "FromObj (lay E) h = resumable_of (lay E) node numSlots" and
    m: "mem s' = Create_mem (lay E) clone objSize (mem s) node fp numSlots ra ro"
    by (rule Create_InrD)
  have nn: "0 \<le> sint ro" by (rule Create_pre_nonneg[OF pre assms(2)])
  show "m_size (lay E) (mem s') (FromObj (lay E) h) =
           ucast (totalSize_of (lay E) numSlots objSize)"
    unfolding m r Create_mem_def by (simp only: header_size pack_hi[OF nn])
  show "size_R (lay E) (mem s') (FromObj (lay E) h) =
           scast (ucast (totalSize_of (lay E) numSlots objSize) :: 32 word)"
    unfolding m r Create_mem_def by (rule header_size_R[OF nn])
  show "m_offsetAndSize (lay E) (mem s') (FromObj (lay E) h) =
           push_bit 32 (totalSize_of (lay E) numSlots objSize) OR ucast ro"
    unfolding m r Create_mem_def by (simp only: header_offsetAndSize pack_nonneg[OF nn])
qed

text \<open>
  C4, as the code has it. For a \<open>Create\<close> that returns, on a fresh block and for a
  function whose bounds are not negative: \<open>resumeAddr()\<close> is the address passed in, and
  any other address would have been accepted as well, while an offset outside the bounds
  would have ended the call in the fault of the assertion; \<open>resumeOffset()\<close> passes
  its assertion and is the offset passed in; the packed word is the total size shifted left
  by 32 bits with the offset in the low half; and \<open>size()\<close> is the total size when
  that total is less than \<open>2 ^ 31\<close>.
\<close>

theorem Create_header_readback:
  assumes run: "Create E clone objSize mayUseVV fp numSlots ra ro s = Inr (h, s')"
    and fb: "fresh_block E clone objSize fp numSlots s"
    and ok: "Func_ok (funcs E (ActRec_func (lay E) (mem s) fp))"
  shows "resumeAddr (lay E) (mem s') (FromObj (lay E) h) = ra \<and>
         (\<exists>h' s''. Create E clone objSize mayUseVV fp numSlots ra' ro s = Inr (h', s'')) \<and>
         (\<not> contains (funcs E (ActRec_func (lay E) (mem s) fp)) ro' \<longrightarrow>
            Create E clone objSize mayUseVV fp numSlots ra ro' s = Inl Assert_contains) \<and>
         resumeOffset E (mem s') (FromObj (lay E) h) = Inr ro \<and>
         m_offsetAndSize (lay E) (mem s') (FromObj (lay E) h) =
           push_bit 32 (totalSize_of (lay E) numSlots objSize) OR ucast ro \<and>
         (unat (totalSize_of (lay E) numSlots objSize) < 2 ^ 31 \<longrightarrow>
            size_R (lay E) (mem s') (FromObj (lay E) h) = totalSize_of (lay E) numSlots objSize)"
proof -
  let ?L = "lay E"
  from run obtain node where
    pre: "Create_pre E clone mayUseVV fp ro s" and
    al: "objMalloc_ptr E (trace s) (totalSize_of ?L numSlots objSize) = Some node" and
    r: "FromObj ?L h = resumable_of ?L node numSlots" and
    m: "mem s' = Create_mem ?L clone objSize (mem s) node fp numSlots ra ro"
    by (rule Create_InrD)
  have 1: "resumeAddr ?L (mem s') (FromObj ?L h) = ra"
    unfolding m r Create_mem_def resumeAddr_def by (rule header_resumeAddr)
  have 2: "\<exists>h' s''. Create E clone objSize mayUseVV fp numSlots ra' ro s = Inr (h', s'')"
    by (rule Create_succeeds[OF pre]) (simp add: al)
  have 5: "\<not> contains (funcs E (ActRec_func ?L (mem s) fp)) ro' \<longrightarrow>
            Create E clone objSize mayUseVV fp numSlots ra ro' s = Inl Assert_contains"
    using Create_out_of_bounds[OF pre] by blast
  have 3: "resumeOffset E (mem s') (FromObj ?L h) = Inr ro"
    by (rule Create_resumeOffset[OF run fb])
  note sz = Create_size_R[OF run ok]
  have 4: "unat (totalSize_of ?L numSlots objSize) < 2 ^ 31 \<longrightarrow>
            size_R ?L (mem s') (FromObj ?L h) = totalSize_of ?L numSlots objSize"
    unfolding sz(2) using sign_extend_small by blast
  show ?thesis using 1 2 3 4 5 sz(3) by blast
qed

theorem Create_header_readback_witness:
  "Create E0 False 40 True 0x7000 3 0xCAFE 12 live_frame = Inr (0x10080, created) \<and>
   fresh_block E0 False 40 0x7000 3 live_frame \<and> Func_ok f100 \<and>
   unat (168 :: size_t) < 2 ^ 31 \<and> \<not> contains f100 100 \<and>
   Create E0 False 40 True 0x7000 3 0xCAFE 100 live_frame = Inl Assert_contains \<and>
   resumeAddr x64 (mem created) 0x10040 = 0xCAFE \<and>
   resumeOffset E0 (mem created) 0x10040 = Inr 12 \<and>
   m_offsetAndSize x64 (mem created) 0x10040 = 0xA80000000C \<and>
   size_R x64 (mem created) 0x10040 = 168"
proof -
  have f: "Func_ok (funcs E0 (ActRec_func (lay E0) (mem live_frame) 0x7000))"
    by (simp add: E0_def f100_ok)
  have l: "lay E0 = x64" by (simp add: E0_def)
  have t: "totalSize_of x64 3 40 = 168"
    by (simp add: totalSize_of_def frameSize_of_def x64_fields x64_offsets)
  have r: "FromObj x64 0x10080 = 0x10040" by (simp add: FromObj_def x64_offsets)
  show ?thesis
    using Create_header_readback[OF run_live fresh_live f, where ro' = 100]
      run_live fresh_live f100_ok contains_f100
    unfolding l t r by (simp add: E0_simps)
qed

text \<open>
  C4 as stated fails: a clone of a frame with \<open>2 ^ 27\<close> local slots asks the memory
  manager for \<open>0x80000078\<close> bytes, and \<open>size()\<close> of the header it fills is
  \<open>0xFFFFFFFF80000078\<close>.
\<close>

theorem Create_size_counterexample:
  "Create E0 True 40 True 0x7000 0x8000000 0xCAFE 12 suspended_frame =
     Inr (0x80010050, cloned_2GiB) \<and>
   contains f100 12 \<and> Func_ok f100 \<and>
   fresh_block E0 True 40 0x7000 0x8000000 suspended_frame \<and>
   requested (events_since suspended_frame cloned_2GiB) = [0x80000078] \<and>
   totalSize_of x64 0x8000000 40 = 0x80000078 \<and>
   size_R x64 (mem cloned_2GiB) (FromObj x64 0x80010050) = 0xFFFFFFFF80000078 \<and>
   size_R x64 (mem cloned_2GiB) (FromObj x64 0x80010050) \<noteq> totalSize_of x64 0x8000000 40"
proof -
  have fb: "fresh_block E0 True 40 0x7000 0x8000000 suspended_frame"
    by (simp add: fresh_block_def E0_def x64_ok x64_fields x64_offsets totalSize_of_def
          frameSize_of_def disjoint_def word_le_nat_alt)
  have f: "Func_ok (funcs E0 (ActRec_func (lay E0) (mem suspended_frame) 0x7000))"
    by (simp add: E0_def f100_ok)
  have l: "lay E0 = x64" by (simp add: E0_def)
  have t: "totalSize_of x64 0x8000000 40 = 0x80000078"
    by (simp add: totalSize_of_def frameSize_of_def x64_fields x64_offsets)
  have "size_R x64 (mem cloned_2GiB) (FromObj x64 0x80010050) =
          scast (ucast (0x80000078 :: 64 word) :: 32 word)"
    using Create_size_R(2)[OF run_2GiB f] unfolding l t .
  moreover have "requested (events_since suspended_frame cloned_2GiB) = [0x80000078]"
    by (simp add: events_since_def suspended_frame_def cloned_2GiB_def)
  ultimately show ?thesis using run_2GiB fb f100_ok contains_f100_12 by (simp add: t)
qed

lemma uint_below_iff: "uint (t::64 word) < 2 ^ 31 \<longleftrightarrow> unat t < 2 ^ 31"
  by (simp only: uint_nat of_nat_less_numeral_power_cancel_iff)

lemma sint_ucast_eq_iff:
  "sint (ucast (t :: 64 word) :: 32 word) = uint t \<longleftrightarrow> unat t < 2 ^ 31"
proof
  assume "sint (ucast t :: 32 word) = uint t"
  moreover have "sint (ucast t :: 32 word) < 2 ^ 31"
    using sint_lt[of "ucast t :: 32 word"] by simp
  ultimately have "uint t < 2 ^ 31" by simp
  then show "unat t < 2 ^ 31" by (simp only: uint_below_iff)
next
  assume a: "unat t < 2 ^ 31"
  then have u: "uint t < 2 ^ 31" by (simp only: uint_below_iff)
  have u0: "0 \<le> uint t" by simp
  have "take_bit 32 (uint t) = uint t"
    by (rule take_bit_int_eq_self) (use u in simp_all)
  then have 1: "uint (ucast t :: 32 word) = uint t"
    by (simp add: unsigned_ucast_eq)
  have "- (2 ^ 31) \<le> (0::int)" by simp
  then have "- (2 ^ 31) \<le> uint t" using u0 by (rule order_trans)
  then have 2: "signed_take_bit 31 (uint t) = uint t"
    using u by (rule signed_take_bit_int_eq_self)
  have "sint (ucast t :: 32 word) = signed_take_bit 31 (uint (ucast t :: 32 word))"
    by (simp add: sint_uint)
  then show "sint (ucast t :: 32 word) = uint t" by (simp only: 1 2)
qed

text \<open>
  C10. \<open>Create\<close> writes the packed word as the total size shifted left by 32 bits,
  with the offset in the low half; for a function whose bounds are not negative the signed
  32-bit field \<open>m_size\<close> then holds the low 32 bits of the total, and read as a signed
  number the field is the total exactly when the total is less than \<open>2 ^ 31\<close>: beyond
  that it is truncated or negative. \<open>size()\<close> extends the sign of the field to 64 bits;
  for every total a memory manager can hand out, that is, less than \<open>2 ^ 63\<close> bytes,
  \<open>size()\<close> is the total only when the total is less than \<open>2 ^ 31\<close>, and it is the
  total then. No size makes \<open>Create\<close> fail: it returns whenever the memory manager
  answers.
\<close>

theorem Create_size_field:
  assumes run: "Create E clone objSize mayUseVV fp numSlots ra ro s = Inr (h, s')"
    and ok: "Func_ok (funcs E (ActRec_func (lay E) (mem s) fp))"
  shows "m_offsetAndSize (lay E) (mem s') (FromObj (lay E) h) =
           push_bit 32 (totalSize_of (lay E) numSlots objSize) OR ucast ro \<and>
         m_size (lay E) (mem s') (FromObj (lay E) h) =
           ucast (totalSize_of (lay E) numSlots objSize) \<and>
         (sint (m_size (lay E) (mem s') (FromObj (lay E) h)) =
            uint (totalSize_of (lay E) numSlots objSize) \<longleftrightarrow>
          unat (totalSize_of (lay E) numSlots objSize) < 2 ^ 31) \<and>
         size_R (lay E) (mem s') (FromObj (lay E) h) =
           scast (m_size (lay E) (mem s') (FromObj (lay E) h)) \<and>
         (unat (totalSize_of (lay E) numSlots objSize) < 2 ^ 63 \<longrightarrow>
            (size_R (lay E) (mem s') (FromObj (lay E) h) = totalSize_of (lay E) numSlots objSize
               \<longleftrightarrow>
             unat (totalSize_of (lay E) numSlots objSize) < 2 ^ 31)) \<and>
         (\<forall>n k. objMalloc_ptr E (trace s) (totalSize_of (lay E) n k) \<noteq> None \<longrightarrow>
            (\<exists>h' s''. Create E clone k mayUseVV fp n ra ro s = Inr (h', s'')))"
proof -
  let ?T = "totalSize_of (lay E) numSlots objSize"
  let ?r = "FromObj (lay E) h"
  note sz = Create_size_R[OF run ok]
  from run have pre: "Create_pre E clone mayUseVV fp ro s"
    by (rule Create_InrD)
  have 3: "sint (m_size (lay E) (mem s') ?r) = uint ?T \<longleftrightarrow> unat ?T < 2 ^ 31"
    unfolding sz(1) by (rule sint_ucast_eq_iff)
  have 4: "size_R (lay E) (mem s') ?r = scast (m_size (lay E) (mem s') ?r)"
    by (simp only: size_R_def)
  have 5: "size_R (lay E) (mem s') ?r = ?T \<longleftrightarrow> unat ?T < 2 ^ 31"
    if below: "unat ?T < 2 ^ 63"
  proof -
    have "\<not> 2 ^ 64 - 2 ^ 31 \<le> unat ?T" using below by simp
    then show ?thesis unfolding sz(2) sign_extend_eq_iff by simp
  qed
  have 6: "\<forall>n k. objMalloc_ptr E (trace s) (totalSize_of (lay E) n k) \<noteq> None \<longrightarrow>
            (\<exists>h' s''. Create E clone k mayUseVV fp n ra ro s = Inr (h', s''))"
    using Create_succeeds[OF pre] by blast
  show ?thesis using sz(3) sz(1) 3 4 5 6 by blast
qed

theorem Create_size_field_witness:
  "Create E0 False 40 True 0x7000 3 0xCAFE 12 live_frame = Inr (0x10080, created) \<and>
   Func_ok f100 \<and> unat (totalSize_of x64 3 40) < 2 ^ 63 \<and>
   m_size x64 (mem created) 0x10040 = 168 \<and>
   size_R x64 (mem created) 0x10040 = 168 \<and>
   objMalloc_ptr E0 (trace live_frame) (totalSize_of x64 0x8000000 40) \<noteq> None \<and>
   (\<exists>h' s''. Create E0 False 40 True 0x7000 0x8000000 0xCAFE 12 live_frame = Inr (h', s'')) \<and>
   Create E0 True 40 True 0x7000 0x8000000 0xCAFE 12 suspended_frame =
     Inr (0x80010050, cloned_2GiB) \<and>
   unat (totalSize_of x64 0x8000000 40) < 2 ^ 63 \<and>
   \<not> unat (totalSize_of x64 0x8000000 40) < 2 ^ 31 \<and>
   size_R x64 (mem cloned_2GiB) (FromObj x64 0x80010050) \<noteq> totalSize_of x64 0x8000000 40"
proof -
  have f: "Func_ok (funcs E0 (ActRec_func (lay E0) (mem live_frame) 0x7000))"
    by (simp add: E0_def f100_ok)
  have g: "Func_ok (funcs E0 (ActRec_func (lay E0) (mem suspended_frame) 0x7000))"
    by (simp add: E0_def f100_ok)
  have l: "lay E0 = x64" by (simp add: E0_def)
  have t: "totalSize_of x64 3 40 = 168"
    by (simp add: totalSize_of_def frameSize_of_def x64_fields x64_offsets)
  have u: "totalSize_of x64 0x8000000 40 = 0x80000078"
    by (simp add: totalSize_of_def frameSize_of_def x64_fields x64_offsets)
  have r: "FromObj x64 0x10080 = 0x10040" by (simp add: FromObj_def x64_offsets)
  have a: "objMalloc_ptr E0 (trace live_frame) (totalSize_of x64 0x8000000 40) \<noteq> None"
    by (simp add: E0_def)
  have small: "Func_ok f100 \<and> unat (totalSize_of x64 3 40) < 2 ^ 63 \<and>
      m_size x64 (mem created) 0x10040 = 168 \<and> size_R x64 (mem created) 0x10040 = 168 \<and>
      objMalloc_ptr E0 (trace live_frame) (totalSize_of x64 0x8000000 40) \<noteq> None \<and>
      (\<exists>h' s''. Create E0 False 40 True 0x7000 0x8000000 0xCAFE 12 live_frame = Inr (h', s''))"
    using Create_size_field[OF run_live f] f100_ok a
    unfolding l t r by simp
  have big: "unat (totalSize_of x64 0x8000000 40) < 2 ^ 63 \<and>
      \<not> unat (totalSize_of x64 0x8000000 40) < 2 ^ 31 \<and>
      size_R x64 (mem cloned_2GiB) (FromObj x64 0x80010050) \<noteq> totalSize_of x64 0x8000000 40"
    using Create_size_field[OF run_2GiB g]
    unfolding l u by simp
  show ?thesis using run_live run_2GiB small big by blast
qed


section \<open>Accessors\<close>

lemma setResumeAddr_Inr:
  assumes "contains (funcs E (ActRec_func (lay E) (mem s) (actRec (lay E) r))) ro"
  shows "setResumeAddr E r ra ro s =
           Inr (s\<lparr>mem := store_u32 (store_u64 (mem s) (r + of_nat (resumeAddrOff (lay E))) ra)
                            (r + of_nat (resumeOffsetOff (lay E))) ro\<rparr>)"
  using assms by (simp add: setResumeAddr_def Let_def)

lemma setResumeAddr_Inl:
  assumes "\<not> contains (funcs E (ActRec_func (lay E) (mem s) (actRec (lay E) r))) ro"
  shows "setResumeAddr E r ra ro s = Inl Assert_contains"
  using assms by (simp add: setResumeAddr_def Let_def)

lemma load_u64_store_u32_next: "load_u64 (store_u32 m (p + 8) w) p = load_u64 m p"
proof (rule load_u64_cong)
  fix k :: "64 word" assume "k < 8"
  then have "4 \<le> unat (k - 8)" by (simp add: unat_sub64 word_less_nat_alt)
  then have "4 \<le> (p + k) - (p + 8)" by (simp add: word_le_nat_alt)
  then show "store_u32 m (p + 8) w (p + k) = m (p + k)" by (rule store_u32_out)
qed

lemma load_u32_store_u64_12: "load_u32 (store_u64 m p w) (p + 12) = load_u32 m (p + 12)"
proof (rule load_u32_cong)
  fix k :: "64 word" assume "k < 4"
  then have "8 \<le> unat (12 + k)" by (simp add: unat_add64 word_less_nat_alt)
  then have "8 \<le> (p + 12 + k) - p" by (simp add: word_le_nat_alt add.assoc)
  then show "store_u64 m p w (p + 12 + k) = m (p + 12 + k)" by (rule store_u64_out)
qed

lemma set_mem_resumeAddr:
  "m_resumeAddr L (store_u32 (store_u64 m (r + of_nat (resumeAddrOff L)) ra)
                     (r + of_nat (resumeOffsetOff L)) ro) r = ra"
  by (simp add: m_resumeAddr_def resumeOffsetOff_eq load_u64_store_u32_next add.assoc[symmetric])

lemma set_mem_resumeOffset:
  "m_resumeOffset L (store_u32 (store_u64 m (r + of_nat (resumeAddrOff L)) ra)
                     (r + of_nat (resumeOffsetOff L)) ro) r = ro"
  by (simp add: m_resumeOffset_def)

lemma set_mem_size:
  "m_size L (store_u32 (store_u64 m (r + of_nat (resumeAddrOff L)) ra)
                     (r + of_nat (resumeOffsetOff L)) ro) r = m_size L m r"
proof -
  have a: "r + of_nat (sizeOff L) = r + of_nat (resumeAddrOff L) + 8 + 4"
    by (simp add: sizeOff_def resumeOffsetOff_eq)
  have b: "r + of_nat (resumeOffsetOff L) = r + of_nat (resumeAddrOff L) + 8"
    by (simp add: resumeOffsetOff_eq)
  have c: "r + of_nat (resumeAddrOff L) + 8 + 4 = r + of_nat (resumeAddrOff L) + 12"
    by simp
  show ?thesis
    unfolding m_size_def a b
    by (simp only: load_u32_store_u32_hi) (simp only: c load_u32_store_u64_12)
qed

lemma set_mem_func:
  assumes "layout_ok L"
  shows "ActRec_func L (store_u32 (store_u64 m (r + of_nat (resumeAddrOff L)) ra)
                     (r + of_nat (resumeOffsetOff L)) ro) (actRec L r) = ActRec_func L m r"
  unfolding ActRec_func_def actRec_def arOff_zero
proof (simp only: semiring_1_class.of_nat_0 add_0_right, rule load_u64_eqI)
  fix k :: nat assume k: "k < 8"
  note lf = layout_facts[OF assms]
  let ?x = "r + of_nat (offsetof_m_func L + k)"
  have d: "unat (?x - r) = offsetof_m_func L + k"
    by (rule at_off) (use lf k in simp)
  have 1: "store_u32 m' (r + of_nat (resumeOffsetOff L)) ro ?x = m' ?x" for m'
    by (rule store_u32_off) (use lf k d in auto)
  have 2: "store_u64 m (r + of_nat (resumeAddrOff L)) ra ?x = m ?x"
    by (rule store_u64_off) (use lf k d in auto)
  show "store_u32 (store_u64 m (r + of_nat (resumeAddrOff L)) ra)
          (r + of_nat (resumeOffsetOff L)) ro (r + of_nat (offsetof_m_func L) + of_nat k) =
        m (r + of_nat (offsetof_m_func L) + of_nat k)"
    by (simp only: addr_add 1 2)
qed

lemma created_header: "resumable_of x64 0x10000 3 = 0x10040"
  by (simp add: resumable_of_def frameSize_of_def x64_fields)

lemma created_resumeOffset: "m_resumeOffset x64 (mem created) 0x10040 = 12"
  using header_resumeOffset[of x64 _ "0x10040" "0xCAFE" _ 12]
  by (simp add: created_def Create_mem_def created_header)

lemma stale_resumeOffset: "m_resumeOffset x64 (mem stale) 0x10040 = 200"
  by (simp add: stale_def m_resumeOffset_def x64_offsets)

lemma stored_100_resumeOffset: "m_resumeOffset x64 (mem stored_100) 0x10040 = 100"
  by (simp add: stored_100_def m_resumeOffset_def x64_offsets)

lemma resumeOffset_build_asserting: "resumeOffset_build False E m r = resumeOffset E m r"
  by (simp add: resumeOffset_build_def resumeOffset_def)

lemma setResumeAddr_build_asserting:
  "setResumeAddr_build False E r ra ro s = setResumeAddr E r ra ro s"
  by (simp add: setResumeAddr_build_def setResumeAddr_def)

lemma resumeOffset_build_NDEBUG:
  "resumeOffset_build True E m r = Inr (m_resumeOffset (lay E) m r)"
  by (simp add: resumeOffset_build_def)

lemma setResumeAddr_build_NDEBUG:
  "setResumeAddr_build True E r ra ro s =
     Inr (s\<lparr>mem := store_u32 (store_u64 (mem s) (r + of_nat (resumeAddrOff (lay E))) ra)
                      (r + of_nat (resumeOffsetOff (lay E))) ro\<rparr>)"
  by (simp add: setResumeAddr_build_def Let_def)

text \<open>
  C8, as the code has it. \<open>resumeOffset()\<close> takes the memory and returns a value,
  without a state to change. In a build without \<^verbatim>\<open>NDEBUG\<close>: when the stored offset is
  within the bounds of the function of the activation record it returns that offset, and
  when it is not, it ends in the fault of the failed assertion; \<open>setResumeAddr\<close> checks
  the new offset against the same bounds before it stores anything, so within bounds it
  stores the offset and outside it ends in the same fault; after a \<open>Create\<close> that
  returns, on a fresh block, \<open>resumeOffset()\<close> of the new header is the offset
  \<open>Create\<close> was given, and the same call with an offset outside the bounds ends in that
  fault. In a build with \<^verbatim>\<open>NDEBUG\<close> neither checks: \<open>resumeOffset()\<close> returns the
  stored offset and \<open>setResumeAddr\<close> stores the new one, whatever the bounds are.
\<close>

theorem resumeOffset_checks_bounds:
  "resumeOffset_build False E m r = resumeOffset E m r \<and>
   setResumeAddr_build False E r ra ro s = setResumeAddr E r ra ro s \<and>
   (contains (funcs E (ActRec_func (lay E) m (actRec (lay E) r))) (m_resumeOffset (lay E) m r)
      \<longrightarrow> resumeOffset_build False E m r = Inr (m_resumeOffset (lay E) m r)) \<and>
   (\<not> contains (funcs E (ActRec_func (lay E) m (actRec (lay E) r))) (m_resumeOffset (lay E) m r)
      \<longrightarrow> resumeOffset_build False E m r = Inl Assert_contains) \<and>
   (contains (funcs E (ActRec_func (lay E) (mem s) (actRec (lay E) r))) ro
      \<longrightarrow> (\<exists>s'. setResumeAddr_build False E r ra ro s = Inr s' \<and>
                m_resumeOffset (lay E) (mem s') r = ro \<and> trace s' = trace s)) \<and>
   (\<not> contains (funcs E (ActRec_func (lay E) (mem s) (actRec (lay E) r))) ro
      \<longrightarrow> setResumeAddr_build False E r ra ro s = Inl Assert_contains) \<and>
   (Create E clone objSize mayUseVV fp numSlots ca co s0 = Inr (h, s1) \<and>
    fresh_block E clone objSize fp numSlots s0
      \<longrightarrow> resumeOffset_build False E (mem s1) (FromObj (lay E) h) = Inr co) \<and>
   (Create E clone objSize mayUseVV fp numSlots ca co s0 = Inr (h, s1) \<and>
    \<not> contains (funcs E (ActRec_func (lay E) (mem s0) fp)) co'
      \<longrightarrow> Create E clone objSize mayUseVV fp numSlots ca co' s0 = Inl Assert_contains) \<and>
   resumeOffset_build True E m r = Inr (m_resumeOffset (lay E) m r) \<and>
   (\<exists>s'. setResumeAddr_build True E r ra ro s = Inr s' \<and>
         m_resumeOffset (lay E) (mem s') r = ro \<and> trace s' = trace s \<and>
         resumeOffset_build True E (mem s') r = Inr ro)"
proof -
  have 1: "contains (funcs E (ActRec_func (lay E) m (actRec (lay E) r)))
             (m_resumeOffset (lay E) m r)
           \<longrightarrow> resumeOffset_build False E m r = Inr (m_resumeOffset (lay E) m r)"
    by (simp add: resumeOffset_build_def)
  have 2: "\<not> contains (funcs E (ActRec_func (lay E) m (actRec (lay E) r)))
             (m_resumeOffset (lay E) m r)
           \<longrightarrow> resumeOffset_build False E m r = Inl Assert_contains"
    by (simp add: resumeOffset_build_def)
  have 3: "contains (funcs E (ActRec_func (lay E) (mem s) (actRec (lay E) r))) ro
      \<longrightarrow> (\<exists>s'. setResumeAddr_build False E r ra ro s = Inr s' \<and>
                m_resumeOffset (lay E) (mem s') r = ro \<and> trace s' = trace s)"
    by (simp add: setResumeAddr_build_asserting setResumeAddr_Inr set_mem_resumeOffset)
  have 4: "\<not> contains (funcs E (ActRec_func (lay E) (mem s) (actRec (lay E) r))) ro
      \<longrightarrow> setResumeAddr_build False E r ra ro s = Inl Assert_contains"
    by (simp add: setResumeAddr_build_asserting setResumeAddr_Inl)
  have 5: "Create E clone objSize mayUseVV fp numSlots ca co s0 = Inr (h, s1) \<and>
    fresh_block E clone objSize fp numSlots s0
      \<longrightarrow> resumeOffset_build False E (mem s1) (FromObj (lay E) h) = Inr co"
    unfolding resumeOffset_build_asserting using Create_resumeOffset by blast
  have 6: "Create E clone objSize mayUseVV fp numSlots ca co s0 = Inr (h, s1) \<and>
    \<not> contains (funcs E (ActRec_func (lay E) (mem s0) fp)) co'
      \<longrightarrow> Create E clone objSize mayUseVV fp numSlots ca co' s0 = Inl Assert_contains"
  proof (intro impI, elim conjE)
    assume run: "Create E clone objSize mayUseVV fp numSlots ca co s0 = Inr (h, s1)"
      and out: "\<not> contains (funcs E (ActRec_func (lay E) (mem s0) fp)) co'"
    from run have "Create_pre E clone mayUseVV fp co s0" by (rule Create_InrD)
    then show "Create E clone objSize mayUseVV fp numSlots ca co' s0 = Inl Assert_contains"
      using out by (rule Create_out_of_bounds)
  qed
  have 7: "resumeOffset_build True E m r = Inr (m_resumeOffset (lay E) m r)"
    by (rule resumeOffset_build_NDEBUG)
  have 8: "\<exists>s'. setResumeAddr_build True E r ra ro s = Inr s' \<and>
         m_resumeOffset (lay E) (mem s') r = ro \<and> trace s' = trace s \<and>
         resumeOffset_build True E (mem s') r = Inr ro"
    by (simp add: setResumeAddr_build_NDEBUG resumeOffset_build_NDEBUG set_mem_resumeOffset)
  show ?thesis
    using resumeOffset_build_asserting setResumeAddr_build_asserting 1 2 3 4 5 6 7 8
    by blast
qed

theorem resumeOffset_checks_bounds_witness:
  "contains f100 (m_resumeOffset x64 (mem created) 0x10040) \<and>
   resumeOffset_build False E0 (mem created) 0x10040 = Inr 12 \<and>
   \<not> contains f100 (m_resumeOffset x64 (mem stale) 0x10040) \<and>
   resumeOffset_build False E0 (mem stale) 0x10040 = Inl Assert_contains \<and>
   contains f100 55 \<and>
   (\<exists>s'. setResumeAddr_build False E0 0x10040 0xBEEF 55 created = Inr s' \<and>
         m_resumeOffset x64 (mem s') 0x10040 = 55) \<and>
   \<not> contains f100 100 \<and>
   setResumeAddr_build False E0 0x10040 0xBEEF 100 stale = Inl Assert_contains \<and>
   Create E0 False 40 True 0x7000 3 0xCAFE 12 live_frame = Inr (0x10080, created) \<and>
   fresh_block E0 False 40 0x7000 3 live_frame \<and>
   resumeOffset_build False E0 (mem created) (FromObj x64 0x10080) = Inr 12 \<and>
   Create E0 False 40 True 0x7000 3 0xCAFE 100 live_frame = Inl Assert_contains \<and>
   resumeOffset_build True E0 (mem created) 0x10040 = Inr 12 \<and>
   (\<exists>s'. setResumeAddr_build True E0 0x10040 0xBEEF 55 created = Inr s' \<and>
         resumeOffset_build True E0 (mem s') 0x10040 = Inr 55)"
proof -
  note a = resumeOffset_checks_bounds[of E0 "mem created" "0x10040" "0xBEEF" 55 created
      False 40 True "0x7000" 3 "0xCAFE" 12 live_frame "0x10080" created 100,
      THEN conjunct2, THEN conjunct2]
  note b = resumeOffset_checks_bounds[of E0 "mem stale" "0x10040" "0xBEEF" 100 stale
      False 40 True "0x7000" 3 "0xCAFE" 12 live_frame "0x10080" created 100,
      THEN conjunct2, THEN conjunct2]
  have r: "FromObj x64 0x10080 = 0x10040" by (simp add: FromObj_def x64_offsets)
  show ?thesis
    using a b run_live fresh_live
    by (simp add: E0_simps created_resumeOffset stale_resumeOffset contains_f100 r) blast
qed

text \<open>
  C8 as stated fails: in a build with \<^verbatim>\<open>NDEBUG\<close>, \<open>setResumeAddr\<close> on the fresh frame
  stores the offset 100, which is outside the function, without a fault, and
  \<open>resumeOffset()\<close> then returns 100; on the header with the stored offset 200 it
  returns 200.
\<close>

theorem resumeOffset_NDEBUG_counterexample:
  "\<not> contains (funcs E0 (ActRec_func (lay E0) (mem created) (actRec (lay E0) 0x10040))) 100 \<and>
   setResumeAddr_build True E0 0x10040 0xBEEF 100 created = Inr stored_100 \<and>
   \<not> contains (funcs E0 (ActRec_func (lay E0) (mem stored_100) (actRec (lay E0) 0x10040)))
        (m_resumeOffset (lay E0) (mem stored_100) 0x10040) \<and>
   resumeOffset_build True E0 (mem stored_100) 0x10040 = Inr 100 \<and>
   \<not> contains (funcs E0 (ActRec_func (lay E0) (mem stale) (actRec (lay E0) 0x10040)))
        (m_resumeOffset (lay E0) (mem stale) 0x10040) \<and>
   resumeOffset_build True E0 (mem stale) 0x10040 = Inr 200"
proof -
  have 1: "setResumeAddr_build True E0 0x10040 0xBEEF 100 created = Inr stored_100"
    by (simp add: setResumeAddr_build_NDEBUG E0_simps x64_offsets stored_100_def)
  have 2: "resumeOffset_build True E0 (mem stored_100) 0x10040 = Inr 100"
    by (simp add: resumeOffset_build_NDEBUG E0_simps stored_100_resumeOffset)
  have 3: "resumeOffset_build True E0 (mem stale) 0x10040 = Inr 200"
    by (simp add: resumeOffset_build_NDEBUG E0_simps stale_resumeOffset)
  show ?thesis
    using 1 2 3
    by (simp add: E0_simps contains_f100 stored_100_resumeOffset stale_resumeOffset)
qed

text \<open>
  C9. Two calls of \<open>setResumeAddr\<close> in a row, each with an offset within the bounds of
  the function: both return, and afterwards \<open>resumeAddr()\<close> and \<open>resumeOffset()\<close> give
  the address and the offset of the second call. \<open>size()\<close> is the same before the first
  call, between the two and after the second, so \<open>destroy\<close> of the handle releases what
  it would have released before them.
\<close>

theorem setResumeAddr_last_write_wins:
  assumes "layout_ok (lay E)"
    and "contains (funcs E (ActRec_func (lay E) (mem s) (actRec (lay E) r))) o1"
    and "contains (funcs E (ActRec_func (lay E) (mem s) (actRec (lay E) r))) o2"
  shows "\<exists>s1 s2. setResumeAddr E r a1 o1 s = Inr s1 \<and> setResumeAddr E r a2 o2 s1 = Inr s2 \<and>
           resumeAddr (lay E) (mem s2) r = a2 \<and>
           resumeOffset E (mem s2) r = Inr o2 \<and>
           size_R (lay E) (mem s1) r = size_R (lay E) (mem s) r \<and>
           size_R (lay E) (mem s2) r = size_R (lay E) (mem s) r \<and>
           trace (destroy (lay E) k (r + of_nat (dataOff (lay E))) s2) =
             trace (destroy (lay E) k (r + of_nat (dataOff (lay E))) s)"
proof -
  let ?L = "lay E"
  let ?set = "\<lambda>m ra ro. store_u32 (store_u64 m (r + of_nat (resumeAddrOff ?L)) ra)
                            (r + of_nat (resumeOffsetOff ?L)) ro"
  let ?s1 = "s\<lparr>mem := ?set (mem s) a1 o1\<rparr>"
  let ?s2 = "?s1\<lparr>mem := ?set (mem ?s1) a2 o2\<rparr>"
  have f1: "ActRec_func ?L (mem ?s1) (actRec ?L r) = ActRec_func ?L (mem s) (actRec ?L r)"
    using set_mem_func[OF assms(1)] by (simp add: actRec_def arOff_zero)
  have f2: "ActRec_func ?L (mem ?s2) (actRec ?L r) = ActRec_func ?L (mem s) (actRec ?L r)"
    using set_mem_func[OF assms(1)] by (simp add: actRec_def arOff_zero)
  have 1: "setResumeAddr E r a1 o1 s = Inr ?s1"
    by (rule setResumeAddr_Inr[OF assms(2)])
  have 2: "setResumeAddr E r a2 o2 ?s1 = Inr ?s2"
    by (rule setResumeAddr_Inr) (simp only: f1 assms(3))
  have 3: "resumeAddr ?L (mem ?s2) r = a2"
    by (simp add: resumeAddr_def set_mem_resumeAddr)
  have o: "m_resumeOffset ?L (mem ?s2) r = o2"
    by (simp add: set_mem_resumeOffset)
  have 4: "resumeOffset E (mem ?s2) r = Inr o2"
    unfolding resumeOffset_def by (simp only: f2 o assms(3) not_True_eq_False if_False)
  have 5: "size_R ?L (mem ?s1) r = size_R ?L (mem s) r"
    by (simp add: size_R_def set_mem_size)
  have 6: "size_R ?L (mem ?s2) r = size_R ?L (mem s) r"
    by (simp add: size_R_def set_mem_size)
  have 7: "trace (destroy ?L k (r + of_nat (dataOff ?L)) ?s2) =
             trace (destroy ?L k (r + of_nat (dataOff ?L)) s)"
    unfolding destroy_def FromObj_handle 6
    by (simp add: Destroy_def objFree_def Let_def)
  show ?thesis using 1 2 3 4 5 6 7 by blast
qed

theorem setResumeAddr_last_write_wins_witness:
  "layout_ok x64 \<and> contains f100 12 \<and> contains f100 55 \<and>
   (\<exists>s1 s2. setResumeAddr E0 0x10040 0x1111 12 created = Inr s1 \<and>
            setResumeAddr E0 0x10040 0x2222 55 s1 = Inr s2 \<and>
            resumeAddr x64 (mem s2) 0x10040 = 0x2222 \<and>
            resumeOffset E0 (mem s2) 0x10040 = Inr 55 \<and>
            size_R x64 (mem s2) 0x10040 = size_R x64 (mem created) 0x10040)"
proof -
  have a: "layout_ok (lay E0)" by (simp add: E0_simps x64_ok)
  have b: "contains (funcs E0 (ActRec_func (lay E0) (mem created) (actRec (lay E0) 0x10040))) 12"
    by (simp add: E0_simps contains_f100)
  have c: "contains (funcs E0 (ActRec_func (lay E0) (mem created) (actRec (lay E0) 0x10040))) 55"
    by (simp add: E0_simps contains_f100)
  from setResumeAddr_last_write_wins[OF a b c, of "0x1111" "0x2222" 40]
  obtain s1 s2 where
    "setResumeAddr E0 0x10040 0x1111 12 created = Inr s1"
    "setResumeAddr E0 0x10040 0x2222 55 s1 = Inr s2"
    "resumeAddr (lay E0) (mem s2) 0x10040 = 0x2222"
    "resumeOffset E0 (mem s2) 0x10040 = Inr 55"
    "size_R (lay E0) (mem s2) 0x10040 = size_R (lay E0) (mem created) 0x10040"
    by blast
  then show ?thesis
    using x64_ok contains_f100 unfolding E0_simps by blast
qed


section \<open>Copies\<close>

lemma or_and_same: "((x :: 32 word) OR b) AND b = b"
  by (rule bit_word_eqI) (auto simp: bit_simps)

text \<open>
  C6. A \<open>Create\<close> that is not a clone, on a fresh block: every byte of the new locals
  region and of the new activation record, except the four bytes of the flags word, is the
  byte at the same place of the caller's frame (the locals lie \<open>frameSize\<close> bytes below the
  record); the flags word is the caller's with the suspended flag set, so the caller's frame
  was not suspended and the new record is.
\<close>

theorem Create_copies_frame:
  assumes run: "Create E False objSize mayUseVV fp numSlots ra ro s = Inr (h, s')"
    and fb: "fresh_block E False objSize fp numSlots s"
  shows "(\<forall>i. i < unat (frameSize_of (lay E) numSlots) + sizeof_ActRec (lay E) \<and>
              (i < unat (frameSize_of (lay E) numSlots) + offsetof_flags (lay E) \<or>
               unat (frameSize_of (lay E) numSlots) + offsetof_flags (lay E) + 4 \<le> i) \<longrightarrow>
            mem s' (actRec (lay E) (FromObj (lay E) h) - frameSize_of (lay E) numSlots + of_nat i) =
            mem s (fp - frameSize_of (lay E) numSlots + of_nat i)) \<and>
         load_u32 (mem s') (actRec (lay E) (FromObj (lay E) h) + of_nat (offsetof_flags (lay E))) =
           load_u32 (mem s) (fp + of_nat (offsetof_flags (lay E))) OR resumed_bit (lay E) \<and>
         \<not> ActRec_resumed (lay E) (mem s) fp \<and>
         ActRec_resumed (lay E) (mem s') (actRec (lay E) (FromObj (lay E) h))"
proof -
  let ?L = "lay E"
  let ?FS = "frameSize_of ?L numSlots"
  from run obtain node where
    pre: "Create_pre E False mayUseVV fp ro s" and
    al: "objMalloc_ptr E (trace s) (totalSize_of ?L numSlots objSize) = Some node" and
    r: "FromObj ?L h = resumable_of ?L node numSlots" and
    m: "mem s' = Create_mem ?L False objSize (mem s) node fp numSlots ra ro"
    by (rule Create_InrD)
  have ar: "actRec ?L (FromObj ?L h) = resumable_of ?L node numSlots"
    by (simp add: r actRec_def arOff_zero)
  have 1: "mem s' (actRec ?L (FromObj ?L h) - ?FS + of_nat i) = mem s (fp - ?FS + of_nat i)"
    if "i < unat ?FS + sizeof_ActRec ?L"
       "i < unat ?FS + offsetof_flags ?L \<or> unat ?FS + offsetof_flags ?L + 4 \<le> i" for i
  proof -
    have "actRec ?L (FromObj ?L h) - ?FS + of_nat i =
            node + of_nat (sizeof_ResumableNode ?L + i)"
      by (simp add: ar resumable_of_def)
    then show ?thesis
      unfolding m using Create_mem_copied[OF fb al that] by (simp only:)
  qed
  have 2: "load_u32 (mem s') (actRec ?L (FromObj ?L h) + of_nat (offsetof_flags ?L)) =
           load_u32 (mem s) (fp + of_nat (offsetof_flags ?L)) OR resumed_bit ?L"
    unfolding m ar by (rule Create_mem_flags[OF fb al])
  have 3: "\<not> ActRec_resumed ?L (mem s) fp"
    using pre by (simp add: Create_pre_def)
  have "resumed_bit ?L \<noteq> 0"
    using fresh_block_sizes(1)[OF fb] by (simp add: layout_ok_def)
  then have 4: "ActRec_resumed ?L (mem s') (actRec ?L (FromObj ?L h))"
    by (simp add: ActRec_resumed_def 2 or_and_same)
  show ?thesis using 1 2 3 4 by blast
qed

theorem Create_copies_frame_witness:
  "Create E0 False 40 True 0x7000 3 0xCAFE 12 live_frame = Inr (0x10080, created) \<and>
   fresh_block E0 False 40 0x7000 3 live_frame \<and>
   (65::nat) < 48 + 48 \<and> (65::nat) < 48 + 28 \<and>
   mem created 0x10051 = mem live_frame 0x7011 \<and>
   load_u32 (mem created) 0x1005C = 0x20000000 \<and>
   \<not> ActRec_resumed x64 (mem live_frame) 0x7000 \<and>
   ActRec_resumed x64 (mem created) 0x10040"
proof -
  have r: "FromObj x64 0x10080 = 0x10040" by (simp add: FromObj_def x64_offsets)
  have fs: "frameSize_of x64 3 = 48" by (simp add: frameSize_of_def x64_fields)
  have fl: "load_u32 (mem live_frame) 0x701C = 0"
    by (simp add: live_frame_def load_u32_def store_u64_def store_u32_def)
  note t = Create_copies_frame[OF run_live fresh_live, unfolded E0_simps r fs actRec_def
      x64_offsets x64_fields]
  have 1: "mem created 0x10051 = mem live_frame 0x7011"
    using t[THEN conjunct1, rule_format, of 65] by simp
  from t have 2: "load_u32 (mem created) 0x1005C = 0x20000000" by (simp add: fl)
  from t have 3: "ActRec_resumed x64 (mem created) 0x10040" by simp
  show ?thesis using run_live fresh_live 1 2 3 live_frame_resumed by simp
qed

text \<open>
  C5. A clone, on a fresh block: every byte of the new activation record from the offset
  of \<^verbatim>\<open>m_func\<close> to its end is the byte at the same place of the source record, so the
  function is the same and the suspended flag is set; the bytes before \<^verbatim>\<open>m_func\<close>, the
  two linkage fields, and the bytes of the locals region are what they were before the
  call; and the hand-off of the variable environment is not called.
\<close>

theorem Create_clone_copies_from_func:
  assumes run: "Create E True objSize mayUseVV fp numSlots ra ro s = Inr (h, s')"
    and fb: "fresh_block E True objSize fp numSlots s"
  shows "(\<forall>i. offsetof_m_func (lay E) \<le> i \<and> i < sizeof_ActRec (lay E) \<longrightarrow>
            mem s' (actRec (lay E) (FromObj (lay E) h) + of_nat i) = mem s (fp + of_nat i)) \<and>
         ActRec_func (lay E) (mem s') (actRec (lay E) (FromObj (lay E) h)) =
           ActRec_func (lay E) (mem s) fp \<and>
         ActRec_resumed (lay E) (mem s') (actRec (lay E) (FromObj (lay E) h)) \<and>
         (\<forall>i. i < offsetof_m_func (lay E) \<longrightarrow>
            mem s' (actRec (lay E) (FromObj (lay E) h) + of_nat i) =
            mem s (actRec (lay E) (FromObj (lay E) h) + of_nat i)) \<and>
         (\<forall>i. i < unat (frameSize_of (lay E) numSlots) \<longrightarrow>
            mem s' (actRec (lay E) (FromObj (lay E) h) - frameSize_of (lay E) numSlots + of_nat i) =
            mem s (actRec (lay E) (FromObj (lay E) h) - frameSize_of (lay E) numSlots + of_nat i)) \<and>
         filter is_VarEnvSuspend (events_since s s') = []"
proof -
  let ?L = "lay E"
  let ?FS = "frameSize_of ?L numSlots"
  let ?a = "actRec ?L (FromObj ?L h)"
  from run obtain node where
    pre: "Create_pre E True mayUseVV fp ro s" and
    al: "objMalloc_ptr E (trace s) (totalSize_of ?L numSlots objSize) = Some node" and
    r: "FromObj ?L h = resumable_of ?L node numSlots" and
    m: "mem s' = Create_mem ?L True objSize (mem s) node fp numSlots ra ro" and
    tr: "trace s' = trace s @ ObjMalloc (totalSize_of ?L numSlots objSize) node #
           handoff E True mayUseVV fp (actRec ?L (resumable_of ?L node numSlots)) s"
    by (rule Create_InrD)
  have ar: "?a = resumable_of ?L node numSlots"
    by (simp add: r actRec_def arOff_zero)
  have 1: "mem s' (?a + of_nat i) = mem s (fp + of_nat i)"
    if "offsetof_m_func ?L \<le> i" "i < sizeof_ActRec ?L" for i
    unfolding m ar by (rule Create_mem_cloned[OF fb al that])
  have 2: "ActRec_func ?L (mem s') ?a = ActRec_func ?L (mem s) fp"
    unfolding m ar by (rule Create_mem_clone_func[OF fb al])
  have "load_u32 (mem s') (?a + of_nat (offsetof_flags ?L)) =
          load_u32 (mem s) (fp + of_nat (offsetof_flags ?L))"
    unfolding m ar by (rule Create_mem_clone_flags[OF fb al])
  moreover have "ActRec_resumed ?L (mem s) fp"
    using pre by (simp add: Create_pre_def)
  ultimately have 3: "ActRec_resumed ?L (mem s') ?a"
    by (simp add: ActRec_resumed_def)
  have 4: "mem s' (?a + of_nat i) = mem s (?a + of_nat i)" if "i < offsetof_m_func ?L" for i
  proof -
    have "?a + of_nat i = node + of_nat (sizeof_ResumableNode ?L + (unat ?FS + i))"
      by (simp add: ar resumable_of_def)
    moreover have "unat ?FS + i < unat ?FS + offsetof_m_func ?L" using that by simp
    ultimately show ?thesis
      unfolding m using Create_mem_clone_untouched[OF fb] by (simp only:)
  qed
  have 5: "mem s' (?a - ?FS + of_nat i) = mem s (?a - ?FS + of_nat i)" if "i < unat ?FS" for i
  proof -
    have "?a - ?FS + of_nat i = node + of_nat (sizeof_ResumableNode ?L + i)"
      by (simp add: ar resumable_of_def)
    moreover have "i < unat ?FS + offsetof_m_func ?L" using that by simp
    ultimately show ?thesis
      unfolding m using Create_mem_clone_untouched[OF fb] by (simp only:)
  qed
  have 6: "filter is_VarEnvSuspend (events_since s s') = []"
    by (simp add: events_since_append[OF tr] handoff_def)
  show ?thesis using 1 2 3 4 5 6 by blast
qed

theorem Create_clone_copies_from_func_witness:
  "Create E0 True 40 True 0x7000 3 0xCAFE 12 suspended_frame = Inr (0x10080, cloned) \<and>
   fresh_block E0 True 40 0x7000 3 suspended_frame \<and>
   (16::nat) \<le> 31 \<and> (31::nat) < 48 \<and> (8::nat) < 16 \<and> (1::nat) < 48 \<and>
   mem cloned 0x1005F = mem suspended_frame 0x701F \<and>
   ActRec_func x64 (mem cloned) 0x10040 = 0x5000 \<and>
   ActRec_resumed x64 (mem cloned) 0x10040 \<and>
   mem cloned 0x10048 = mem suspended_frame 0x10048 \<and>
   mem cloned 0x10011 = mem suspended_frame 0x10011 \<and>
   filter is_VarEnvSuspend (events_since suspended_frame cloned) = []"
proof -
  have r: "FromObj x64 0x10080 = 0x10040" by (simp add: FromObj_def x64_offsets)
  have fs: "frameSize_of x64 3 = 48" by (simp add: frameSize_of_def x64_fields)
  note t = Create_clone_copies_from_func[OF run_clone fresh_suspended, unfolded E0_simps r fs
      actRec_def x64_offsets x64_fields]
  have 1: "mem cloned 0x1005F = mem suspended_frame 0x701F"
    using t[THEN conjunct1, rule_format, of 31] by simp
  from t have 2: "ActRec_func x64 (mem cloned) 0x10040 = 0x5000"
    by (simp add: suspended_frame_func)
  from t have 3: "ActRec_resumed x64 (mem cloned) 0x10040" by simp
  have 4: "mem cloned 0x10048 = mem suspended_frame 0x10048"
    using t[THEN conjunct2, THEN conjunct2, THEN conjunct2, THEN conjunct1, rule_format, of 8]
    by simp
  have 5: "mem cloned 0x10011 = mem suspended_frame 0x10011"
    using t[THEN conjunct2, THEN conjunct2, THEN conjunct2, THEN conjunct2, THEN conjunct1,
        rule_format, of 1]
    by simp
  from t have 6: "filter is_VarEnvSuspend (events_since suspended_frame cloned) = []" by simp
  show ?thesis using run_clone fresh_suspended 1 2 3 4 5 6 by simp
qed

end
